theory Spec2Isabelle
  imports Complex_Main "HOL-Library.AList"
begin

section \<open>JavaScript values used by the rate limiter and the cache\<close>

text \<open>
  Instants and durations are JavaScript numbers holding whole milliseconds
  (\<^verbatim>\<open>Date.now()\<close>, \<^verbatim>\<open>windowMs\<close>, \<^verbatim>\<open>ttl\<close>); they are modelled as \<^typ>\<open>int\<close>.
  A JavaScript \<^verbatim>\<open>Map\<close> keeps its keys in insertion order and holds each key once;
  it is modelled as an association list: \<^verbatim>\<open>Map.get\<close> is \<^const>\<open>map_of\<close>,
  \<^verbatim>\<open>Map.set\<close> is \<^const>\<open>AList.update\<close> (an existing key keeps its place, a new key
  goes last) and \<^verbatim>\<open>Map.delete\<close> is \<^const>\<open>AList.delete\<close>.
\<close>

type_synonym ('k, 'v) js_map = "('k \<times> 'v) list"

definition Map_has :: "('k, 'v) js_map \<Rightarrow> 'k \<Rightarrow> bool" where
  "Map_has m k = (map_of m k \<noteq> None)"

datatype js_error = RangeError | SupplierError string

text \<open>
  \<^verbatim>\<open>new Date(t).toISOString()\<close> throws a RangeError when \<^verbatim>\<open>t\<close> is outside the
  range of ECMAScript time values, 8.64e15 milliseconds either side of the epoch.
\<close>

definition valid_date :: "int \<Rightarrow> bool" where
  "valid_date t = (- 8640000000000000 \<le> t \<and> t \<le> 8640000000000000)"

text \<open>
  The code's numbers are doubles. A whole number is held exactly when it is a safe
  integer, and a sum or difference of safe integers that is itself a safe integer is
  computed exactly; that is the range in which the model computes the number a
  rejection reports.
\<close>

definition safe_integer :: "int \<Rightarrow> bool" where
  "safe_integer n = (- 9007199254740991 \<le> n \<and> n \<le> 9007199254740991)"

text \<open>
  A number the rejection branch can produce: \<^verbatim>\<open>NaN\<close> (arithmetic on \<^verbatim>\<open>undefined\<close>),
  a whole number computed exactly, or a double outside the range above, which the
  model does not compute.
\<close>

datatype js_number = NaN | Whole int | Inexact

text \<open>Decimal digits of a natural number.\<close>

fun digits :: "nat \<Rightarrow> string" where
  "digits n =
     (if n < 10 then [''0123456789'' ! n]
      else digits (n div 10) @ [''0123456789'' ! (n mod 10)])"

declare digits.simps [simp del]

text \<open>
  The text a template literal prints for a number. A whole number below \<open>10^21\<close> in
  size prints as its decimal digits; from there on JavaScript prints an exponent
  form, which the model does not compute (\<open>None\<close>), as it does not for an inexact
  double.
\<close>

fun js_number_string :: "js_number \<Rightarrow> string option" where
  "js_number_string NaN = Some ''NaN''"
| "js_number_string (Whole n) =
     (if \<bar>n\<bar> < 10 ^ 21
      then Some (if n < 0 then ''-'' @ digits (nat (- n)) else digits (nat n))
      else None)"
| "js_number_string Inexact = None"

text \<open>
  \<^verbatim>\<open>Math.ceil(x / 1000)\<close> for a whole number \<^verbatim>\<open>x\<close>. For a safe integer \<^verbatim>\<open>x\<close> the
  double quotient lies on the same side of every whole number as the exact one (the
  quotient is below \<open>2^44\<close>, where doubles are less than 0.002 apart, and an inexact
  quotient is at least 0.001 away from a whole number), so the ceiling is exact.
\<close>

definition ceil_div_1000 :: "int \<Rightarrow> int" where
  "ceil_div_1000 x = - ((- x) div 1000)"

section \<open>The rate limiter (middleware/validate.js, createRateLimiter)\<close>

text \<open>
  \<^verbatim>\<open>requestCounts\<close> is one module-level Map from client id to the array of
  admitted timestamps; every limiter made by \<^verbatim>\<open>createRateLimiter\<close> reads and
  writes this same Map.
\<close>

type_synonym request_counts = "(string, int list) js_map"

record rate_limiter_options =
  opt_windowMs :: "int option"
  opt_maxRequests :: "int option"
  opt_message :: "string option"
  opt_useUserId :: "bool option"

record rate_limiter =
  windowMs :: int
  maxRequests :: int
  message :: string
  useUserId :: bool

text \<open>
  The factory destructures its options with defaults and returns the middleware
  closure. It has no \<^verbatim>\<open>throw\<close>; the result is a sum so that a failing
  construction can be stated at all, and every branch is \<open>Inr\<close>.
\<close>

definition createRateLimiter :: "rate_limiter_options \<Rightarrow> js_error + rate_limiter" where
  "createRateLimiter options =
     Inr \<lparr> windowMs = (case opt_windowMs options of None \<Rightarrow> 15 * 60 * 1000 | Some w \<Rightarrow> w),
           maxRequests = (case opt_maxRequests options of None \<Rightarrow> 100 | Some m \<Rightarrow> m),
           message = (case opt_message options of
                        None \<Rightarrow> ''Too many requests from this IP, please try again later.''
                      | Some s \<Rightarrow> s),
           useUserId = (case opt_useUserId options of None \<Rightarrow> False | Some b \<Rightarrow> b) \<rparr>"

record request =
  userId :: "string option"
  ip :: "string option"
  remoteAddress :: "string option"

datatype header_value =
    HNum int    \<comment> \<open>a number passed to \<^verbatim>\<open>setHeader\<close>\<close>
  | HIso int    \<comment> \<open>\<^verbatim>\<open>new Date(t).toISOString()\<close> of the instant \<open>t\<close>\<close>

text \<open>
  The body of a rejection. \<open>retryAfter\<close> is the text of the template literal,
  \<open>None\<close> where the model does not compute the number printed in it.
\<close>

record rate_limit_body =
  success :: bool
  error :: string
  retryAfter :: "string option"

record response =
  statusCode :: nat
  headers :: "(string, header_value) js_map"
  body :: "rate_limit_body option"

datatype outcome =
    Next              \<comment> \<open>\<^verbatim>\<open>next()\<close> was called: the request is admitted\<close>
  | Responded         \<comment> \<open>the middleware answered itself (429)\<close>
  | Threw js_error    \<comment> \<open>the middleware threw\<close>

text \<open>
  Of the response object the model keeps the status, the headers set through
  \<^verbatim>\<open>setHeader\<close> and the body given to \<^verbatim>\<open>json\<close>. What Express adds of its own when it
  sends a body (the content type) is not part of it.

  A JavaScript string is truthy unless it is missing or empty.
\<close>

fun truthy :: "string option \<Rightarrow> bool" where
  "truthy None = False"
| "truthy (Some s) = (s \<noteq> [])"

definition clientIdOf :: "rate_limiter \<Rightarrow> request \<Rightarrow> string" where
  "clientIdOf L req =
     (if useUserId L \<and> truthy (userId req) then ''user_'' @ the (userId req)
      else if truthy (ip req) then the (ip req)
      else if truthy (remoteAddress req) then the (remoteAddress req)
      else ''unknown'')"

definition setHeader :: "response \<Rightarrow> string \<Rightarrow> header_value \<Rightarrow> response" where
  "setHeader res name v = res\<lparr>headers := AList.update name v (headers res)\<rparr>"

text \<open>
  \<^verbatim>\<open>Math.ceil((validRequests[0] + windowMs - now) / 1000)\<close>. \<^verbatim>\<open>validRequests[0]\<close> of
  an empty array is \<^verbatim>\<open>undefined\<close>, and the arithmetic on it gives \<^verbatim>\<open>NaN\<close>. The sum
  and the difference are exact when operands and results are safe integers.
\<close>

definition exact_retry :: "int \<Rightarrow> int \<Rightarrow> int \<Rightarrow> bool" where
  "exact_retry t0 w now =
     (safe_integer t0 \<and> safe_integer w \<and> safe_integer now
      \<and> safe_integer (t0 + w) \<and> safe_integer (t0 + w - now))"

fun retryAfterSeconds :: "int list \<Rightarrow> int \<Rightarrow> int \<Rightarrow> js_number" where
  "retryAfterSeconds [] w now = NaN"
| "retryAfterSeconds (t0 # ts) w now =
     (if exact_retry t0 w now then Whole (ceil_div_1000 (t0 + w - now)) else Inexact)"

text \<open>The template literal: the number, a blank and the word \<^verbatim>\<open>seconds\<close>.\<close>

definition seconds_text :: "js_number \<Rightarrow> string option" where
  "seconds_text n = map_option (\<lambda>s. s @ '' seconds'') (js_number_string n)"

text \<open>
  The middleware closure, lines 304 to 335. \<open>now\<close> is the reading of
  \<^verbatim>\<open>Date.now()\<close>. The filtered array is stored in the Map before the quota test,
  and \<^verbatim>\<open>push\<close> then mutates that stored array in place, which is the last
  \<^const>\<open>AList.update\<close> below. Each array is referenced from one Map entry only
  (\<^verbatim>\<open>filter\<close> makes a new one at every call), so no other entry changes.
\<close>

definition rateLimiterMiddleware ::
  "rate_limiter \<Rightarrow> request \<Rightarrow> response \<Rightarrow> int \<Rightarrow> request_counts
     \<Rightarrow> request_counts \<times> response \<times> outcome" where
  "rateLimiterMiddleware L req res now requestCounts =
     (let clientId = clientIdOf L req;
          windowStart = now - windowMs L;
          rc1 = (if \<not> Map_has requestCounts clientId
                 then AList.update clientId [] requestCounts else requestCounts);
          requests = (case map_of rc1 clientId of Some ts \<Rightarrow> ts | None \<Rightarrow> []);
          validRequests = filter (\<lambda>timestamp. timestamp > windowStart) requests;
          rc2 = AList.update clientId validRequests rc1
      in if int (length validRequests) \<ge> maxRequests L then
           (rc2,
            res\<lparr>statusCode := 429,
                body := Some \<lparr> success = False, error = message L,
                               retryAfter =
                                 seconds_text
                                   (retryAfterSeconds validRequests (windowMs L) now) \<rparr>\<rparr>,
            Responded)
         else
           (let pushed = validRequests @ [now];
                rc3 = AList.update clientId pushed rc2;
                res1 = setHeader res ''X-RateLimit-Limit'' (HNum (maxRequests L));
                res2 = setHeader res1 ''X-RateLimit-Remaining''
                         (HNum (max 0 (maxRequests L - int (length pushed))))
            in if valid_date (now + windowMs L)
               then (rc3, setHeader res2 ''X-RateLimit-Reset'' (HIso (now + windowMs L)), Next)
               else (rc3, res2, Threw RangeError)))"

text \<open>
  Express gives every request a response object of its own; before any middleware
  has run it has status 200, no header set by this code and no body.
\<close>

definition fresh_response :: response where
  "fresh_response = \<lparr> statusCode = 200, headers = [], body = None \<rparr>"

text \<open>
  A run of requests through one limiter, one after the other, each with the clock
  reading of its arrival. The Map is threaded through.
\<close>

fun serve ::
  "rate_limiter \<Rightarrow> (request \<times> int) list \<Rightarrow> request_counts
     \<Rightarrow> request_counts \<times> (response \<times> outcome) list" where
  "serve L [] rc = (rc, [])"
| "serve L ((req, now) # calls) rc =
     (case rateLimiterMiddleware L req fresh_response now rc of
        (rc', res, out) \<Rightarrow>
          (case serve L calls rc' of (rc'', outs) \<Rightarrow> (rc'', (res, out) # outs)))"


text \<open>
  The hourly sweep, the callback given to \<^verbatim>\<open>setInterval\<close>: it walks the entries of
  the Map, re-filters each array against one hour and deletes the clients left with
  none. \<open>now\<close> is its own reading of the clock.
\<close>

fun sweep_loop :: "(string \<times> int list) list \<Rightarrow> int \<Rightarrow> request_counts \<Rightarrow> request_counts" where
  "sweep_loop [] now rc = rc"
| "sweep_loop ((clientId, requests) # entries) now rc =
     (let maxAge = 60 * 60 * 1000;
          validRequests = filter (\<lambda>timestamp. timestamp > now - maxAge) requests
      in if length validRequests = 0
         then sweep_loop entries now (AList.delete clientId rc)
         else sweep_loop entries now (AList.update clientId validRequests rc))"

definition sweep :: "int \<Rightarrow> request_counts \<Rightarrow> request_counts" where
  "sweep now requestCounts = sweep_loop requestCounts now requestCounts"

text \<open>
  What happens to the one shared Map over time: a request passes through one of the
  limiters, or the sweep fires. Each event carries its reading of the clock. \<open>run\<close>
  threads the Map through the events in order and collects what each request got.
\<close>

datatype event = Request rate_limiter request int | Sweep int

fun event_time :: "event \<Rightarrow> int" where
  "event_time (Request L req now) = now"
| "event_time (Sweep now) = now"

fun run ::
  "event list \<Rightarrow> request_counts \<Rightarrow> request_counts \<times> (response \<times> outcome) list" where
  "run [] rc = (rc, [])"
| "run (Request L req now # events) rc =
     (case rateLimiterMiddleware L req fresh_response now rc of
        (rc', res, out) \<Rightarrow>
          (case run events rc' of (rc'', outs) \<Rightarrow> (rc'', (res, out) # outs)))"
| "run (Sweep now # events) rc = run events (sweep now rc)"






text \<open>
  Reading aids for the statements below: the array the Map holds for a client (empty
  when the client has no entry, which is what the middleware creates for it), and
  the entries of an array that lie inside the trailing window at \<open>now\<close>.
\<close>

definition stored :: "request_counts \<Rightarrow> string \<Rightarrow> int list" where
  "stored rc c = (case map_of rc c of Some ts \<Rightarrow> ts | None \<Rightarrow> [])"

definition inWindow :: "rate_limiter \<Rightarrow> int \<Rightarrow> int list \<Rightarrow> int list" where
  "inWindow L now ts = filter (\<lambda>timestamp. timestamp > now - windowMs L) ts"

text \<open>The response object after \<^verbatim>\<open>res.status(429).json({...})\<close>.\<close>

definition rejection :: "rate_limiter \<Rightarrow> response \<Rightarrow> int list \<Rightarrow> int \<Rightarrow> response" where
  "rejection L res valid now =
     res\<lparr>statusCode := 429,
         body := Some \<lparr> success = False, error = message L,
                        retryAfter =
                          seconds_text (retryAfterSeconds valid (windowMs L) now) \<rparr>\<rparr>"

section \<open>The cache (services/cacheService.js, class CacheService)\<close>

text \<open>
  A cached value is any JavaScript value; the code only ever tells \<^verbatim>\<open>null\<close> from
  everything else (\<^verbatim>\<open>cached !== null\<close>), so a value is \<open>JNull\<close> or a payload.
\<close>

datatype 'a js_value = JNull | JVal 'a

record 'a cache_item =
  itemValue :: "'a js_value"    \<comment> \<open>the field \<^verbatim>\<open>value\<close>\<close>
  expiresAt :: int
  createdAt :: int

record 'a cache_service =
  cache :: "(string, 'a cache_item) js_map"
  defaultTTL :: int

text \<open>
  The constructor takes no argument. As for the limiter factory, the result is a sum
  so that a failing construction can be stated; the source has no \<^verbatim>\<open>throw\<close>.
\<close>

definition CacheService :: "js_error + 'a cache_service" where
  "CacheService = Inr \<lparr> cache = [], defaultTTL = 5 * 60 * 1000 \<rparr>"

text \<open>
  Every method that reads the clock takes the reading as an argument. \<^verbatim>\<open>set\<close> reads
  it twice, first for \<^verbatim>\<open>expiresAt\<close> and then for \<^verbatim>\<open>createdAt\<close>. A missing \<^verbatim>\<open>ttl\<close>
  argument (\<open>None\<close>) takes \<^verbatim>\<open>this.defaultTTL\<close>.
\<close>

definition cache_get :: "'a cache_service \<Rightarrow> string \<Rightarrow> int \<Rightarrow> 'a cache_service \<times> 'a js_value" where
  "cache_get this key now =
     (case map_of (cache this) key of
        None \<Rightarrow> (this, JNull)
      | Some item \<Rightarrow>
          if now > expiresAt item
          then (this\<lparr>cache := AList.delete key (cache this)\<rparr>, JNull)
          else (this, itemValue item))"

definition cache_set ::
  "'a cache_service \<Rightarrow> string \<Rightarrow> 'a js_value \<Rightarrow> int option \<Rightarrow> int \<Rightarrow> int \<Rightarrow> 'a cache_service" where
  "cache_set this key v ttl now1 now2 =
     (let ttl' = (case ttl of None \<Rightarrow> defaultTTL this | Some t \<Rightarrow> t);
          expires = now1 + ttl'
      in this\<lparr>cache :=
           AList.update key \<lparr> itemValue = v, expiresAt = expires, createdAt = now2 \<rparr>
             (cache this)\<rparr>)"

definition cache_has :: "'a cache_service \<Rightarrow> string \<Rightarrow> int \<Rightarrow> 'a cache_service \<times> bool" where
  "cache_has this key now =
     (case map_of (cache this) key of
        None \<Rightarrow> (this, False)
      | Some item \<Rightarrow>
          if now > expiresAt item
          then (this\<lparr>cache := AList.delete key (cache this)\<rparr>, False)
          else (this, True))"

text \<open>
  \<^verbatim>\<open>getOrSet\<close> is an async function with one suspension point, the
  \<^verbatim>\<open>await fetchFn()\<close> between its \<^verbatim>\<open>get\<close> and its \<^verbatim>\<open>set\<close>. It is modelled as the
  two runs of code on either side of that point. \<open>getOrSet_start\<close> runs up to the
  await: it reads the cache at \<open>now\<close> and either returns the cached value, or calls
  \<^verbatim>\<open>fetchFn\<close> and suspends, keeping the \<open>ttl\<close> it resolved on entry.
  \<open>getOrSet_resume\<close> runs when the supplier has settled to \<open>fetched\<close>, a rejection or
  a value, on the cache as it is by then: any other operation, another
  \<^verbatim>\<open>getOrSet\<close> included, may have run in between. \<open>now1\<close> and \<open>now2\<close> are the two
  clock readings inside \<^verbatim>\<open>set\<close>.
\<close>

datatype 'a started =
    Hit "'a js_value"    \<comment> \<open>returned the cached value; \<^verbatim>\<open>fetchFn\<close> was not called\<close>
  | Suspended int        \<comment> \<open>called \<^verbatim>\<open>fetchFn\<close> and waits for it, with this \<open>ttl\<close>\<close>

definition getOrSet_start ::
  "'a cache_service \<Rightarrow> string \<Rightarrow> int option \<Rightarrow> int \<Rightarrow> 'a cache_service \<times> 'a started" where
  "getOrSet_start this key ttl now =
     (let ttl' = (case ttl of None \<Rightarrow> defaultTTL this | Some t \<Rightarrow> t) in
      case cache_get this key now of
        (this1, cached) \<Rightarrow>
          if cached \<noteq> JNull then (this1, Hit cached) else (this1, Suspended ttl'))"

definition getOrSet_resume ::
  "'a cache_service \<Rightarrow> string \<Rightarrow> int \<Rightarrow> js_error + 'a js_value \<Rightarrow> int \<Rightarrow> int
     \<Rightarrow> 'a cache_service \<times> (js_error + 'a js_value)" where
  "getOrSet_resume this key ttl' fetched now1 now2 =
     (case fetched of
        Inl e \<Rightarrow> (this, Inl e)
      | Inr v \<Rightarrow> (cache_set this key v (Some ttl') now1 now2, Inr v))"

text \<open>The number of times a started call has invoked the supplier.\<close>

fun invocations :: "'a started \<Rightarrow> nat" where
  "invocations (Hit v) = 0"
| "invocations (Suspended ttl') = 1"

text \<open>
  \<open>getOrSet\<close> is a call that is awaited to its end with nothing else touching the
  cache while its supplier runs: the start, and for a miss the resumption on the cache
  the start left. The third component of its result counts the invocations of the
  supplier.
\<close>

definition getOrSet ::
  "'a cache_service \<Rightarrow> string \<Rightarrow> js_error + 'a js_value \<Rightarrow> int option \<Rightarrow> int \<Rightarrow> int \<Rightarrow> int
     \<Rightarrow> 'a cache_service \<times> (js_error + 'a js_value) \<times> nat" where
  "getOrSet this key fetched ttl now now1 now2 =
     (case getOrSet_start this key ttl now of
        (this1, Hit cached) \<Rightarrow> (this1, Inr cached, 0)
      | (this1, Suspended ttl') \<Rightarrow>
          (case getOrSet_resume this1 key ttl' fetched now1 now2 of
             (this2, result) \<Rightarrow> (this2, result, 1)))"

text \<open>
  \<^verbatim>\<open>cleanExpired\<close> walks the entries of the Map in order, deleting from the Map as it
  goes. A Map holds a key once, so deleting the entry being visited leaves the
  entries still to be visited as they were.
\<close>

fun cleanExpired_loop ::
  "(string \<times> 'a cache_item) list \<Rightarrow> int \<Rightarrow> (string, 'a cache_item) js_map \<Rightarrow> nat
     \<Rightarrow> (string, 'a cache_item) js_map \<times> nat" where
  "cleanExpired_loop [] now m removed = (m, removed)"
| "cleanExpired_loop ((key, item) # entries) now m removed =
     (if now > expiresAt item
      then cleanExpired_loop entries now (AList.delete key m) (removed + 1)
      else cleanExpired_loop entries now m removed)"

definition cleanExpired :: "'a cache_service \<Rightarrow> int \<Rightarrow> 'a cache_service \<times> nat" where
  "cleanExpired this now =
     (case cleanExpired_loop (cache this) now (cache this) 0 of
        (m, removed) \<Rightarrow> (this\<lparr>cache := m\<rparr>, removed))"

text \<open>An entry is expired at \<open>now\<close> when \<^verbatim>\<open>now > item.expiresAt\<close>.\<close>

definition expired :: "int \<Rightarrow> string \<times> 'a cache_item \<Rightarrow> bool" where
  "expired now entry = (expiresAt (snd entry) < now)"

section \<open>Concrete inputs used in the examples\<close>

definition example_limiter :: rate_limiter where
  "example_limiter = \<lparr> windowMs = 1000, maxRequests = 2,
       message = ''Too many requests'', useUserId = False \<rparr>"

definition example_request :: request where
  "example_request = \<lparr> userId = None, ip = Some ''10.0.0.1'', remoteAddress = None \<rparr>"

text \<open>
  A second limiter with the same window and a larger quota. It shares the Map with
  \<open>example_limiter\<close>, as the four limiters of \<^verbatim>\<open>rateLimiters\<close> do.
\<close>

definition wide_limiter :: rate_limiter where
  "wide_limiter = \<lparr> windowMs = 1000, maxRequests = 3,
       message = ''Too many requests'', useUserId = False \<rparr>"

text \<open>The limiter of the end-to-end scenario: two requests a minute.\<close>

definition minute_limiter :: rate_limiter where
  "minute_limiter = \<lparr> windowMs = 60000, maxRequests = 2,
       message = ''Too many requests'', useUserId = False \<rparr>"

text \<open>The cache as the constructor leaves it, and a cache holding three entries.\<close>

definition empty_cache :: "string cache_service" where
  "empty_cache = \<lparr> cache = [], defaultTTL = 5 * 60 * 1000 \<rparr>"

definition example_cache :: "string cache_service" where
  "example_cache =
     \<lparr> cache = [(''a'', \<lparr> itemValue = JVal ''x'', expiresAt = 5, createdAt = 0 \<rparr>),
                (''b'', \<lparr> itemValue = JVal ''y'', expiresAt = 10, createdAt = 1 \<rparr>),
                (''c'', \<lparr> itemValue = JNull, expiresAt = 3, createdAt = 2 \<rparr>)],
       defaultTTL = 5 * 60 * 1000 \<rparr>"



definition zero_quota_limiter :: rate_limiter where
  "zero_quota_limiter = \<lparr> windowMs = 60000, maxRequests = 0,
       message = ''Too many requests'', useUserId = False \<rparr>"

text \<open>Options with a negative window, and the limiter the factory makes of them.\<close>

definition negative_window_options :: rate_limiter_options where
  "negative_window_options =
     \<lparr> opt_windowMs = Some (- 1000), opt_maxRequests = Some 2,
       opt_message = Some ''Too many requests'', opt_useUserId = None \<rparr>"

definition negative_window_limiter :: rate_limiter where
  "negative_window_limiter = \<lparr> windowMs = - 1000, maxRequests = 2,
       message = ''Too many requests'', useUserId = False \<rparr>"

section \<open>The middleware, case by case\<close>

lemmas example_defs = example_limiter_def example_request_def wide_limiter_def
  fresh_response_def clientIdOf_def stored_def inWindow_def rejection_def setHeader_def
  valid_date_def


lemma stored_update: "stored (AList.update c ts rc) c' = (if c' = c then ts else stored rc c')"
  by (simp add: stored_def update_conv')



lemma middleware_cases:
  "rateLimiterMiddleware L req res now rc =
     (if maxRequests L \<le> int (length (inWindow L now (stored rc (clientIdOf L req))))
      then (AList.update (clientIdOf L req) (inWindow L now (stored rc (clientIdOf L req))) rc,
            rejection L res (inWindow L now (stored rc (clientIdOf L req))) now, Responded)
      else (AList.update (clientIdOf L req)
              (inWindow L now (stored rc (clientIdOf L req)) @ [now]) rc,
            (if valid_date (now + windowMs L)
             then setHeader
                    (setHeader (setHeader res ''X-RateLimit-Limit'' (HNum (maxRequests L)))
                       ''X-RateLimit-Remaining''
                       (HNum (max 0 (maxRequests L
                          - int (length (inWindow L now (stored rc (clientIdOf L req)) @ [now]))))))
                    ''X-RateLimit-Reset'' (HIso (now + windowMs L))
             else setHeader (setHeader res ''X-RateLimit-Limit'' (HNum (maxRequests L)))
                       ''X-RateLimit-Remaining''
                       (HNum (max 0 (maxRequests L
                          - int (length (inWindow L now (stored rc (clientIdOf L req)) @ [now])))))),
            (if valid_date (now + windowMs L) then Next else Threw RangeError)))"
  by (simp add: rateLimiterMiddleware_def Let_def Map_has_def stored_def inWindow_def
      rejection_def update_conv' split: option.splits)

lemma rejected_iff:
  "snd (snd (rateLimiterMiddleware L req res now rc)) = Responded \<longleftrightarrow>
     maxRequests L \<le> int (length (inWindow L now (stored rc (clientIdOf L req))))"
  by (simp add: middleware_cases)

lemma admitted_iff:
  "snd (snd (rateLimiterMiddleware L req res now rc)) = Next \<longleftrightarrow>
     int (length (inWindow L now (stored rc (clientIdOf L req)))) < maxRequests L
     \<and> valid_date (now + windowMs L)"
  by (auto simp add: middleware_cases)

lemma inWindow_length: "length (inWindow L now ts) \<le> length ts"
  by (simp add: inWindow_def)

lemma inWindow_full: "length (inWindow L now ts) = length ts \<Longrightarrow> inWindow L now ts = ts"
  unfolding inWindow_def by (metis filter_True length_filter_less linorder_not_less order_refl)
  
lemma stored_entry: "map_of rc c \<noteq> None \<Longrightarrow> AList.update c (stored rc c) rc = rc"
  by (auto simp: stored_def intro: update_triv)

lemma map_of_setHeader:
  "map_of (headers (setHeader res name v)) name' =
     (if name' = name then Some v else map_of (headers res) name')"
  by (simp add: setHeader_def update_conv')

lemma ceil_div_1000_ceiling: "ceil_div_1000 x = \<lceil>real_of_int x / 1000\<rceil>"
proof -
  have "\<lfloor>real_of_int (- x) / real_of_int 1000\<rfloor> = (- x) div 1000"
    by (rule floor_divide_of_int_eq)
  then show ?thesis by (simp add: ceil_div_1000_def ceiling_def)
qed

lemma ceil_div_1000_positive: "0 < x \<Longrightarrow> 1 \<le> ceil_div_1000 x"
  unfolding ceil_div_1000_def by linarith

lemma inWindow_hd_Min:
  assumes "sorted ts" "inWindow L now ts \<noteq> []"
  shows "hd (inWindow L now ts) = Min (set (inWindow L now ts))"
proof -
  have s: "sorted (inWindow L now ts)" using assms(1) by (simp add: inWindow_def sorted_wrt_filter)
  obtain x xs where e: "inWindow L now ts = x # xs" using assms(2) by (cases "inWindow L now ts") auto
  have "Min (set (x # xs)) = x"
    using s e by (intro Min_eqI) auto
  then show ?thesis using e by simp
qed

lemma serve_three_rapid:
  assumes "windowMs L = 60000" "maxRequests L = 2" "stored rc0 (clientIdOf L req0) = []"
    "t1 \<le> t2" "t2 \<le> t3" "t3 - t1 < 60000" "valid_date (t1 + 60000)" "valid_date (t2 + 60000)"
  shows "map snd (snd (serve L [(req0, t1), (req0, t2), (req0, t3)] rc0)) = [Next, Next, Responded]"
    and "fst (snd (serve L [(req0, t1), (req0, t2), (req0, t3)] rc0) ! 2) =
          rejection L fresh_response [t1, t2] t3"
  using assms
  by (simp_all add: middleware_cases stored_update inWindow_def split_beta)

text \<open>
  The sweep drops only timestamps older than an hour, so for a limiter whose window
  is at most an hour a sweep made before a request changes neither the outcome of the
  request nor its response. The Map keeps its keys distinct throughout.
\<close>

lemma sweep_loop_lookup:
  "distinct (map fst entries) \<Longrightarrow>
   map_of (sweep_loop entries now rc) c =
     (case map_of entries c of
        None \<Rightarrow> map_of rc c
      | Some ts \<Rightarrow>
          if filter (\<lambda>timestamp. timestamp > now - 3600000) ts = [] then None
          else Some (filter (\<lambda>timestamp. timestamp > now - 3600000) ts))"
proof (induction entries arbitrary: rc)
  case Nil
  show ?case by simp
next
  case (Cons entry entries)
  obtain k ts where entry: "entry = (k, ts)" by (cases entry)
  have fresh: "map_of entries k = None"
    using Cons.prems entry by (simp add: map_of_eq_None_iff)
  have d: "distinct (map fst entries)" using Cons.prems by simp
  show ?case
  proof (cases "c = k")
    case True
    then show ?thesis
      using entry fresh Cons.IH[OF d] by (simp add: Let_def update_conv' delete_conv')
  next
    case False
    then show ?thesis
      using entry Cons.IH[OF d]
      by (simp add: Let_def update_conv' delete_conv' split: option.splits)
  qed
qed

lemma stored_sweep:
  assumes "distinct (map fst rc)"
  shows "stored (sweep s rc) c = filter (\<lambda>timestamp. timestamp > s - 3600000) (stored rc c)"
  using sweep_loop_lookup[OF assms, of s rc c]
  by (simp add: stored_def sweep_def split: option.splits)

lemma sweep_keeps_outcome:
  assumes "distinct (map fst rc)" and "windowMs L \<le> 60 * 60 * 1000" and "s \<le> now"
  shows "snd (rateLimiterMiddleware L req res now (sweep s rc)) =
         snd (rateLimiterMiddleware L req res now rc)"
proof -
  have "inWindow L now (stored (sweep s rc) (clientIdOf L req)) =
        inWindow L now (stored rc (clientIdOf L req))"
    unfolding stored_sweep[OF assms(1)] inWindow_def filter_filter
    using assms(2,3) by (intro filter_cong) auto
  then show ?thesis by (simp add: middleware_cases)
qed

lemma middleware_keeps_distinct:
  "distinct (map fst rc) \<Longrightarrow> distinct (map fst (fst (rateLimiterMiddleware L req res now rc)))"
  by (simp add: middleware_cases distinct_update)

section \<open>Runs of events on the shared Map\<close>

text \<open>
  Along a run whose clock never goes backwards, what the code keeps of the client's
  array and the full log of the specification agree on every window that can still be
  asked for, whatever was pruned on the way.
\<close>

lemma sweep_loop_keeps_distinct:
  "distinct (map fst rc) \<Longrightarrow> distinct (map fst (sweep_loop entries now rc))"
proof (induction entries arbitrary: rc)
  case Nil
  then show ?case by simp
next
  case (Cons entry entries)
  obtain k ts where entry: "entry = (k, ts)" by (cases entry)
  show ?case
    using Cons.prems entry
    by (auto simp: Let_def intro!: Cons.IH distinct_update distinct_delete)
qed

lemma sweep_keeps_distinct:
  "distinct (map fst rc) \<Longrightarrow> distinct (map fst (sweep now rc))"
  by (simp add: sweep_def sweep_loop_keeps_distinct)










text \<open>
  In a run whose clock never goes backwards, started on the empty Map, every array
  stays in time order, so that its first element is its oldest.
\<close>

lemma run_keeps_distinct:
  "distinct (map fst rc) \<Longrightarrow> distinct (map fst (fst (run events rc)))"
proof (induction events arbitrary: rc)
  case Nil
  then show ?case by simp
next
  case (Cons e events)
  show ?case
  proof (cases e)
    case (Request L req now)
    have "distinct (map fst (fst (rateLimiterMiddleware L req fresh_response now rc)))"
      using Cons.prems by (rule middleware_keeps_distinct)
    then show ?thesis using Request Cons.IH by (simp add: split_beta)
  next
    case (Sweep s)
    then show ?thesis using Cons.IH sweep_keeps_distinct[OF Cons.prems] by simp
  qed
qed

lemma run_keeps_order:
  assumes "distinct (map fst rc)"
    and "sorted (map event_time events)"
    and "\<And>e. e \<in> set events \<Longrightarrow> lb \<le> event_time e"
    and "\<And>c. sorted (stored rc c) \<and> (\<forall>x \<in> set (stored rc c). x \<le> lb)"
  shows "sorted (stored (fst (run events rc)) c)"
  using assms
proof (induction events arbitrary: rc lb)
  case Nil
  then show ?case by simp
next
  case (Cons e events)
  have later: "event_time e \<le> event_time e'" if "e' \<in> set events" for e'
    using Cons.prems(2) that by simp
  have sorted': "sorted (map event_time events)" using Cons.prems(2) by simp
  have lb: "lb \<le> event_time e" using Cons.prems(3) by simp
  show ?case
  proof (cases e)
    case (Request L req now)
    define rc' where "rc' = fst (rateLimiterMiddleware L req fresh_response now rc)"
    have d: "distinct (map fst rc')"
      unfolding rc'_def using Cons.prems(1) by (rule middleware_keeps_distinct)
    have inv: "sorted (stored rc' c') \<and> (\<forall>x \<in> set (stored rc' c'). x \<le> now)" for c'
    proof -
      have old: "sorted (stored rc c')" "\<forall>x \<in> set (stored rc c'). x \<le> now"
        using Cons.prems(4)[of c'] lb Request by auto
      have "sorted (inWindow L now (stored rc c'))"
        "\<forall>x \<in> set (inWindow L now (stored rc c')). x \<le> now"
        using old by (simp_all add: inWindow_def sorted_wrt_filter)
      then show ?thesis
        using old by (auto simp: rc'_def middleware_cases stored_update sorted_append)
    qed
    have "sorted (stored (fst (run events rc')) c)"
      using Cons.IH[OF d sorted', of now] later inv Request by simp
    then show ?thesis using Request by (simp add: split_beta rc'_def)
  next
    case (Sweep s)
    have d: "distinct (map fst (sweep s rc))"
      using Cons.prems(1) by (rule sweep_keeps_distinct)
    have inv: "sorted (stored (sweep s rc) c') \<and> (\<forall>x \<in> set (stored (sweep s rc) c'). x \<le> s)"
      for c'
      using Cons.prems(4)[of c'] lb Sweep
      by (auto simp: stored_sweep[OF Cons.prems(1)] sorted_wrt_filter)
    have "sorted (stored (fst (run events (sweep s rc))) c)"
      using Cons.IH[OF d sorted', of s] later inv Sweep by simp
    then show ?thesis using Sweep by simp
  qed
qed

lemma run_from_empty_in_order:
  assumes "sorted (map event_time events)"
  shows "sorted (stored (fst (run events [])) c)"
proof (cases events)
  case Nil
  then show ?thesis by (simp add: stored_def)
next
  case (Cons e0 rest)
  show ?thesis
  proof (rule run_keeps_order[OF _ assms, where lb = "event_time e0"])
    fix e assume "e \<in> set events"
    then show "event_time e0 \<le> event_time e" using assms Cons by auto
  qed (simp_all add: stored_def)
qed

lemma whole_seconds_text:
  assumes "safe_integer x" and "0 < x"
  shows "seconds_text (Whole (ceil_div_1000 x)) = Some (digits (nat (ceil_div_1000 x)) @ '' seconds'')"
proof -
  have "0 < ceil_div_1000 x" "ceil_div_1000 x < 10 ^ 21"
    using assms unfolding ceil_div_1000_def safe_integer_def by simp_all
  then show ?thesis by (simp add: seconds_text_def)
qed


section \<open>The cache operations\<close>

lemma delete_own_key:
  assumes "distinct (map fst (pre @ (key, item) # es))"
  shows "AList.delete key (pre @ (key, item) # es) = pre @ es"
proof -
  have "key \<notin> fst ` set pre" "key \<notin> fst ` set es" using assms by auto
  then have "AList.delete key pre = pre" "AList.delete key es = es" by simp_all
  then show ?thesis by (simp add: AList.delete_eq)
qed

lemma cleanExpired_loop_filter:
  "distinct (map fst (pre @ es)) \<Longrightarrow>
   cleanExpired_loop es now (pre @ es) removed =
     (pre @ filter (\<lambda>entry. \<not> expired now entry) es,
      removed + length (filter (expired now) es))"
proof (induction es arbitrary: pre removed)
  case Nil
  then show ?case by simp
next
  case (Cons e es)
  obtain key item where e: "e = (key, item)" by (cases e)
  show ?case
  proof (cases "now > expiresAt item")
    case True
    have d: "distinct (map fst (pre @ es))" using Cons.prems by simp
    have "AList.delete key (pre @ (key, item) # es) = pre @ es"
      using Cons.prems e by (intro delete_own_key) simp
    then show ?thesis
      using True e Cons.IH[OF d, of "removed + 1"] by (simp add: expired_def)
  next
    case False
    have d: "distinct (map fst ((pre @ [e]) @ es))" using Cons.prems by simp
    show ?thesis
      using False e Cons.IH[OF d, of removed] by (simp add: expired_def)
  qed
qed

lemma unexpired_lookup:
  assumes "distinct (map fst entries)"
  shows "map_of (filter (\<lambda>entry. \<not> expired now entry) entries) key =
           (case map_of entries key of
              None \<Rightarrow> None
            | Some item \<Rightarrow> if expiresAt item < now then None else Some item)"
  using assms
proof (induction entries)
  case Nil
  show ?case by simp
next
  case (Cons entry entries)
  have fresh: "map_of entries (fst entry) = None"
    using Cons.prems by (simp add: map_of_eq_None_iff)
  have IH: "map_of (filter (\<lambda>entry. \<not> expired now entry) entries) key =
           (case map_of entries key of
              None \<Rightarrow> None
            | Some item \<Rightarrow> if expiresAt item < now then None else Some item)"
    using Cons by simp
  show ?case
  proof (cases "key = fst entry")
    case True
    then show ?thesis
      using fresh IH by (cases entry) (simp add: expired_def)
  next
    case False
    then show ?thesis
      using IH by (cases entry) (simp add: expired_def)
  qed
qed

lemma cache_set_lookup:
  "map_of (cache (cache_set this key v (Some ttl) now1 now2)) k =
     (if k = key then Some \<lparr> itemValue = v, expiresAt = now1 + ttl, createdAt = now2 \<rparr>
      else map_of (cache this) k)"
  by (simp add: cache_set_def update_conv')

lemma cache_get_miss_iff:
  "snd (cache_get this key now) = JNull \<longleftrightarrow>
     (case map_of (cache this) key of
        None \<Rightarrow> True
      | Some item \<Rightarrow> expiresAt item < now \<or> itemValue item = JNull)"
  by (auto simp: cache_get_def split: option.splits)

lemma getOrSet_awaited:
  "getOrSet this key fetched ttl now now1 now2 =
     (let ttl' = (case ttl of None \<Rightarrow> defaultTTL this | Some t \<Rightarrow> t) in
      case cache_get this key now of
        (this1, cached) \<Rightarrow>
          if cached \<noteq> JNull then (this1, Inr cached, 0)
          else (case fetched of
                  Inl e \<Rightarrow> (this1, Inl e, 1)
                | Inr v \<Rightarrow> (cache_set this1 key v (Some ttl') now1 now2, Inr v, 1)))"
  by (simp add: getOrSet_def getOrSet_start_def getOrSet_resume_def Let_def split_beta
      split: sum.splits)

lemma getOrSet_hit:
  assumes "map_of (cache this) key = Some item" "now \<le> expiresAt item" "itemValue item \<noteq> JNull"
  shows "getOrSet this key fetched ttl now now1 now2 = (this, Inr (itemValue item), 0)"
  using assms by (simp add: getOrSet_awaited cache_get_def Let_def)

lemma getOrSet_miss:
  assumes "snd (cache_get this key now) = JNull"
  shows "getOrSet this key fetched ttl now now1 now2 =
     (case fetched of
        Inl e \<Rightarrow> (fst (cache_get this key now), Inl e, 1)
      | Inr v \<Rightarrow>
          (cache_set (fst (cache_get this key now)) key v
             (Some (case ttl of None \<Rightarrow> defaultTTL this | Some t \<Rightarrow> t)) now1 now2,
           Inr v, 1))"
  using assms by (simp add: getOrSet_awaited Let_def split_beta split: sum.splits)

lemma getOrSet_start_hit:
  assumes "map_of (cache this) key = Some item" "now \<le> expiresAt item" "itemValue item \<noteq> JNull"
  shows "getOrSet_start this key ttl now = (this, Hit (itemValue item))"
  using assms by (simp add: getOrSet_start_def cache_get_def Let_def)

lemma getOrSet_start_miss:
  assumes "snd (cache_get this key now) = JNull"
  shows "getOrSet_start this key ttl now =
     (fst (cache_get this key now),
      Suspended (case ttl of None \<Rightarrow> defaultTTL this | Some t \<Rightarrow> t))"
  using assms by (simp add: getOrSet_start_def Let_def split_beta)

lemma miss_stays_miss:
  assumes "snd (cache_get this key now) = JNull"
  shows "snd (cache_get (fst (cache_get this key now)) key later) = JNull"
  using assms
  by (auto simp: cache_get_def delete_conv' split: option.splits if_splits)

text \<open>The cache, too, holds each key once, from the constructor on.\<close>

lemma cache_set_keeps_distinct:
  "distinct (map fst (cache this)) \<Longrightarrow>
   distinct (map fst (cache (cache_set this key v ttl now1 now2)))"
  by (simp add: cache_set_def Let_def distinct_update)

lemma cache_get_keeps_distinct:
  "distinct (map fst (cache this)) \<Longrightarrow>
   distinct (map fst (cache (fst (cache_get this key now))))"
  by (simp add: cache_get_def distinct_delete split: option.splits)

lemma cache_has_keeps_distinct:
  "distinct (map fst (cache this)) \<Longrightarrow>
   distinct (map fst (cache (fst (cache_has this key now))))"
  by (simp add: cache_has_def distinct_delete split: option.splits)

lemma getOrSet_keeps_distinct:
  assumes "distinct (map fst (cache this))"
  shows "distinct (map fst (cache (fst (getOrSet this key fetched ttl now now1 now2))))"
  using cache_get_keeps_distinct[OF assms, of key now]
  by (simp add: getOrSet_awaited Let_def split_beta cache_set_keeps_distinct split: sum.splits)

section \<open>Claims about the rate limiter\<close>





text \<open>
  Claim C2, as the code has it. The middleware stores the filtered array before it
  tests the quota, so a rejected call can change the Map: it prunes the client's
  expired timestamps (and gives a client without an entry an empty one). What a
  rejected call never does is record the attempt. After it the client's array is
  exactly the in-window part of the array before, so it never grows; every other
  client's entry is as before; and the whole Map is identical before and after
  whenever the client has an entry with no expired timestamp in it, which is always so
  when the entry holds at most \<open>maxRequests\<close> timestamps.
\<close>

theorem rejection_does_not_record:
  assumes "snd (snd (rateLimiterMiddleware L req res now rc)) = Responded"
  shows "fst (rateLimiterMiddleware L req res now rc) =
           AList.update (clientIdOf L req) (inWindow L now (stored rc (clientIdOf L req))) rc
       \<and> stored (fst (rateLimiterMiddleware L req res now rc)) (clientIdOf L req) =
           filter (\<lambda>timestamp. timestamp > now - windowMs L) (stored rc (clientIdOf L req))
       \<and> length (stored (fst (rateLimiterMiddleware L req res now rc)) (clientIdOf L req))
           \<le> length (stored rc (clientIdOf L req))
       \<and> (\<forall>c'. c' \<noteq> clientIdOf L req \<longrightarrow>
             map_of (fst (rateLimiterMiddleware L req res now rc)) c' = map_of rc c')
       \<and> (map_of rc (clientIdOf L req) \<noteq> None
            \<and> ((\<forall>t \<in> set (stored rc (clientIdOf L req)). now - windowMs L < t)
                \<or> int (length (stored rc (clientIdOf L req))) \<le> maxRequests L)
           \<longrightarrow> fst (rateLimiterMiddleware L req res now rc) = rc)"
proof -
  let ?c = "clientIdOf L req"
  let ?valid = "inWindow L now (stored rc ?c)"
  have full: "maxRequests L \<le> int (length ?valid)"
    using assms by (simp add: rejected_iff)
  have st: "fst (rateLimiterMiddleware L req res now rc) = AList.update ?c ?valid rc"
    using full by (simp add: middleware_cases)
  have a: "stored (AList.update ?c ?valid rc) ?c =
      filter (\<lambda>timestamp. timestamp > now - windowMs L) (stored rc ?c)"
    by (simp add: stored_update inWindow_def)
  have b: "length (stored (AList.update ?c ?valid rc) ?c) \<le> length (stored rc ?c)"
    by (simp add: stored_update inWindow_length)
  have c: "map_of (AList.update ?c ?valid rc) c' = map_of rc c'" if "c' \<noteq> ?c" for c'
    using that by (simp add: update_conv')
  have d: "AList.update ?c ?valid rc = rc"
    if h: "map_of rc ?c \<noteq> None"
      "(\<forall>t \<in> set (stored rc ?c). now - windowMs L < t)
         \<or> int (length (stored rc ?c)) \<le> maxRequests L"
  proof -
    have "?valid = stored rc ?c"
    proof (cases "\<forall>t \<in> set (stored rc ?c). now - windowMs L < t")
      case True
      then show ?thesis by (simp add: inWindow_def)
    next
      case False
      then have "int (length (stored rc ?c)) \<le> maxRequests L" using h(2) by blast
      then have "length ?valid = length (stored rc ?c)"
        using full inWindow_length[of L now "stored rc ?c"] by linarith
      then show ?thesis by (rule inWindow_full)
    qed
    then show ?thesis using stored_entry[OF h(1)] by simp
  qed
  show ?thesis using st a b c d by (simp only:) blast
qed


theorem rejection_does_not_record_witness:
  "snd (snd (rateLimiterMiddleware example_limiter example_request fresh_response 500
               [(''10.0.0.1'', [0, 400])])) = Responded
   \<and> fst (rateLimiterMiddleware example_limiter example_request fresh_response 500
               [(''10.0.0.1'', [0, 400])]) = [(''10.0.0.1'', [0, 400])]
   \<and> stored (fst (rateLimiterMiddleware example_limiter example_request fresh_response 1100
               [(''10.0.0.1'', [0, 600, 700])])) ''10.0.0.1'' = [600, 700]"
proof -
  have h1: "snd (snd (rateLimiterMiddleware example_limiter example_request fresh_response 500
               [(''10.0.0.1'', [0, 400])])) = Responded"
    by (simp add: middleware_cases example_defs)
  have h2: "snd (snd (rateLimiterMiddleware example_limiter example_request fresh_response 1100
               [(''10.0.0.1'', [0, 600, 700])])) = Responded"
    by (simp add: middleware_cases example_defs)
  have a: "fst (rateLimiterMiddleware example_limiter example_request fresh_response 500
               [(''10.0.0.1'', [0, 400])]) = [(''10.0.0.1'', [0, 400])]"
    using rejection_does_not_record[OF h1] by (simp add: example_defs)
  have b: "stored (fst (rateLimiterMiddleware example_limiter example_request fresh_response 1100
               [(''10.0.0.1'', [0, 600, 700])])) ''10.0.0.1'' = [600, 700]"
    using rejection_does_not_record[OF h2] by (simp add: example_defs)
  show ?thesis using h1 a b by simp
qed


text \<open>
  The claim as stated fails where two limiters share the Map. Three requests of one
  client pass the limiter with quota 3 at 0, 600 and 700; the limiter with quota 2
  then rejects the client's request at 1100, and that rejected call drops the
  timestamp 0 from the stored array.
\<close>

theorem rejection_changes_state_counterexample:
  "fst (serve wide_limiter
          [(example_request, 0), (example_request, 600), (example_request, 700)] [])
     = [(''10.0.0.1'', [0, 600, 700])]
   \<and> snd (snd (rateLimiterMiddleware example_limiter example_request fresh_response 1100
               [(''10.0.0.1'', [0, 600, 700])])) = Responded
   \<and> fst (rateLimiterMiddleware example_limiter example_request fresh_response 1100
               [(''10.0.0.1'', [0, 600, 700])]) = [(''10.0.0.1'', [600, 700])]
   \<and> fst (rateLimiterMiddleware example_limiter example_request fresh_response 1100
               [(''10.0.0.1'', [0, 600, 700])]) \<noteq> [(''10.0.0.1'', [0, 600, 700])]"
  by (simp add: middleware_cases example_defs)

text \<open>
  Claim C4, as the code has it. On every admitted call \<open>now\<close> is appended to the
  client's in-window timestamps, \<^verbatim>\<open>X-RateLimit-Reset\<close> is the instant
  \<open>now + windowMs\<close>, and \<^verbatim>\<open>X-RateLimit-Remaining\<close> is \<open>maxRequests - (count + 1)\<close>,
  where \<open>count\<close> is the number of in-window timestamps found by the call: the header
  is computed after the push, so the request being admitted is already counted. The
  value is never negative.
\<close>

theorem admitted_call_report:
  assumes "snd (snd (rateLimiterMiddleware L req res now rc)) = Next"
  shows "stored (fst (rateLimiterMiddleware L req res now rc)) (clientIdOf L req) =
           inWindow L now (stored rc (clientIdOf L req)) @ [now]
       \<and> map_of (headers (fst (snd (rateLimiterMiddleware L req res now rc))))
             ''X-RateLimit-Remaining'' =
           Some (HNum (maxRequests L
                       - (int (length (inWindow L now (stored rc (clientIdOf L req)))) + 1)))
       \<and> 0 \<le> maxRequests L
               - (int (length (inWindow L now (stored rc (clientIdOf L req)))) + 1)
       \<and> map_of (headers (fst (snd (rateLimiterMiddleware L req res now rc))))
             ''X-RateLimit-Reset'' = Some (HIso (now + windowMs L))"
proof -
  have adm: "int (length (inWindow L now (stored rc (clientIdOf L req)))) < maxRequests L"
    and vd: "valid_date (now + windowMs L)"
    using assms by (simp_all add: admitted_iff)
  have "max 0 (maxRequests L - (int (length (inWindow L now (stored rc (clientIdOf L req)))) + 1))
      = maxRequests L - (int (length (inWindow L now (stored rc (clientIdOf L req)))) + 1)"
    using adm by simp
  then show ?thesis
    using adm vd by (simp add: middleware_cases stored_update map_of_setHeader)
qed

theorem admitted_call_report_witness:
  "snd (snd (rateLimiterMiddleware example_limiter example_request fresh_response 400
               [(''10.0.0.1'', [0])])) = Next
   \<and> stored (fst (rateLimiterMiddleware example_limiter example_request fresh_response 400
               [(''10.0.0.1'', [0])])) ''10.0.0.1'' = [0, 400]
   \<and> map_of (headers (fst (snd (rateLimiterMiddleware example_limiter example_request
               fresh_response 400 [(''10.0.0.1'', [0])])))) ''X-RateLimit-Remaining''
        = Some (HNum 0)
   \<and> map_of (headers (fst (snd (rateLimiterMiddleware example_limiter example_request
               fresh_response 400 [(''10.0.0.1'', [0])])))) ''X-RateLimit-Reset''
        = Some (HIso 1400)"
proof -
  have h: "snd (snd (rateLimiterMiddleware example_limiter example_request fresh_response 400
               [(''10.0.0.1'', [0])])) = Next"
    by (simp add: middleware_cases example_defs)
  show ?thesis
    using h admitted_call_report[OF h] by (simp add: example_defs)
qed

text \<open>
  The claim as stated, \<open>remaining = maxRequests - count\<close>, fails at the first request
  of a client under quota 2: no timestamp is in the window, and the header says 1.
\<close>

theorem remaining_counts_this_request_counterexample:
  "snd (snd (rateLimiterMiddleware example_limiter example_request fresh_response 0 [])) = Next
   \<and> length (inWindow example_limiter 0 (stored [] ''10.0.0.1'')) = 0
   \<and> map_of (headers (fst (snd
        (rateLimiterMiddleware example_limiter example_request fresh_response 0 []))))
        ''X-RateLimit-Remaining'' = Some (HNum 1)
   \<and> Some (HNum 1) \<noteq> Some (HNum (maxRequests example_limiter - 0))"
  by (simp add: middleware_cases example_defs)

text \<open>
  Claim C5, as the code has it. The three headers \<^verbatim>\<open>X-RateLimit-Limit\<close>,
  \<^verbatim>\<open>X-RateLimit-Remaining\<close> and \<^verbatim>\<open>X-RateLimit-Reset\<close> are set on every admitted
  request. A rejected request is answered with status 429 before any header is set:
  the headers of its response are those it had when it reached the middleware.
\<close>

theorem rate_limit_headers:
  "(snd (snd (rateLimiterMiddleware L req res now rc)) = Next \<longrightarrow>
      map_of (headers (fst (snd (rateLimiterMiddleware L req res now rc))))
        ''X-RateLimit-Limit'' = Some (HNum (maxRequests L))
      \<and> map_of (headers (fst (snd (rateLimiterMiddleware L req res now rc))))
        ''X-RateLimit-Remaining'' \<noteq> None
      \<and> map_of (headers (fst (snd (rateLimiterMiddleware L req res now rc))))
        ''X-RateLimit-Reset'' \<noteq> None)
   \<and> (snd (snd (rateLimiterMiddleware L req res now rc)) = Responded \<longrightarrow>
      statusCode (fst (snd (rateLimiterMiddleware L req res now rc))) = 429
      \<and> headers (fst (snd (rateLimiterMiddleware L req res now rc))) = headers res)"
  by (simp add: middleware_cases map_of_setHeader rejection_def)

theorem rate_limit_headers_witness:
  "snd (snd (rateLimiterMiddleware example_limiter example_request fresh_response 0 [])) = Next
   \<and> map_of (headers (fst (snd (rateLimiterMiddleware example_limiter example_request
               fresh_response 0 [])))) ''X-RateLimit-Limit'' = Some (HNum 2)
   \<and> snd (snd (rateLimiterMiddleware example_limiter example_request fresh_response 500
               [(''10.0.0.1'', [0, 400])])) = Responded
   \<and> headers (fst (snd (rateLimiterMiddleware example_limiter example_request
               fresh_response 500 [(''10.0.0.1'', [0, 400])]))) = []"
proof -
  have h1: "snd (snd (rateLimiterMiddleware example_limiter example_request fresh_response 0 []))
      = Next"
    by (simp add: middleware_cases example_defs)
  have h2: "snd (snd (rateLimiterMiddleware example_limiter example_request fresh_response 500
               [(''10.0.0.1'', [0, 400])])) = Responded"
    by (simp add: middleware_cases example_defs)
  have a: "map_of (headers (fst (snd (rateLimiterMiddleware example_limiter example_request
               fresh_response 0 [])))) ''X-RateLimit-Limit'' = Some (HNum 2)"
    using h1 rate_limit_headers[of example_limiter example_request fresh_response 0 "[]"]
    by (simp add: example_limiter_def)
  have b: "headers (fst (snd (rateLimiterMiddleware example_limiter example_request
               fresh_response 500 [(''10.0.0.1'', [0, 400])]))) = []"
    using h2 rate_limit_headers[of example_limiter example_request fresh_response 500
        "[(''10.0.0.1'', [0, 400])]"]
    by (simp add: fresh_response_def)
  show ?thesis using h1 h2 a b by simp
qed

text \<open>
  The claim as stated fails at a rejected request: the 429 response to the request
  at 500 carries none of the three headers.
\<close>

theorem rejected_without_headers_counterexample:
  "snd (snd (rateLimiterMiddleware example_limiter example_request fresh_response 500
               [(''10.0.0.1'', [0, 400])])) = Responded
   \<and> statusCode (fst (snd (rateLimiterMiddleware example_limiter example_request
               fresh_response 500 [(''10.0.0.1'', [0, 400])]))) = 429
   \<and> map_of (headers (fst (snd (rateLimiterMiddleware example_limiter example_request
               fresh_response 500 [(''10.0.0.1'', [0, 400])])))) ''X-RateLimit-Limit'' = None
   \<and> map_of (headers (fst (snd (rateLimiterMiddleware example_limiter example_request
               fresh_response 500 [(''10.0.0.1'', [0, 400])])))) ''X-RateLimit-Remaining'' = None
   \<and> map_of (headers (fst (snd (rateLimiterMiddleware example_limiter example_request
               fresh_response 500 [(''10.0.0.1'', [0, 400])])))) ''X-RateLimit-Reset'' = None"
  by (simp add: middleware_cases example_defs)


text \<open>
  Claim C8, as the code has it. Every rejected call answers with status 429 and the
  body \<open>{success: false, error: message, retryAfter: "<n> seconds"}\<close>. The number is
  computed from the first timestamp \<open>t0\<close> left in the window, as
  \<open>ceil((t0 + windowMs - now) / 1000)\<close>; in the range of safe integers it is that
  whole number, it is at least 1, and the text is its decimal digits. With no
  timestamp left in the window, which needs a quota of zero or less, the text is
  \<open>NaN seconds\<close>. The first timestamp is the oldest one in every state of the Map
  that a run of events with a clock that never went backwards has produced. For three
  requests in time order within one minute, under quota 2 and a window of 60000, the
  results are admitted, admitted, rejected, and the rejected one carries a positive
  number.
\<close>

theorem rejection_response:
  assumes "snd (snd (rateLimiterMiddleware L req res now rc)) = Responded"
  shows "statusCode (fst (snd (rateLimiterMiddleware L req res now rc))) = 429
     \<and> body (fst (snd (rateLimiterMiddleware L req res now rc))) =
         Some \<lparr> success = False, error = message L,
                retryAfter =
                  seconds_text
                    (retryAfterSeconds (inWindow L now (stored rc (clientIdOf L req)))
                       (windowMs L) now) \<rparr>
     \<and> (\<forall>t0 rest.
           inWindow L now (stored rc (clientIdOf L req)) = t0 # rest
           \<and> exact_retry t0 (windowMs L) now \<longrightarrow>
           retryAfterSeconds (inWindow L now (stored rc (clientIdOf L req))) (windowMs L) now =
             Whole \<lceil>real_of_int (t0 + windowMs L - now) / 1000\<rceil>
           \<and> 1 \<le> \<lceil>real_of_int (t0 + windowMs L - now) / 1000\<rceil>
           \<and> seconds_text
               (retryAfterSeconds (inWindow L now (stored rc (clientIdOf L req)))
                  (windowMs L) now) =
               Some (digits (nat \<lceil>real_of_int (t0 + windowMs L - now) / 1000\<rceil>)
                     @ '' seconds''))
     \<and> (inWindow L now (stored rc (clientIdOf L req)) = [] \<longrightarrow>
           maxRequests L \<le> 0
           \<and> seconds_text
               (retryAfterSeconds (inWindow L now (stored rc (clientIdOf L req)))
                  (windowMs L) now) = Some ''NaN seconds'')
     \<and> (\<forall>events.
           sorted (map event_time events) \<and> rc = fst (run events [])
           \<and> inWindow L now (stored rc (clientIdOf L req)) \<noteq> [] \<longrightarrow>
           hd (inWindow L now (stored rc (clientIdOf L req))) =
             Min (set (inWindow L now (stored rc (clientIdOf L req)))))
     \<and> (\<forall>req0 rc0 t1 t2 t3.
           windowMs L = 60000 \<and> maxRequests L = 2 \<and> stored rc0 (clientIdOf L req0) = []
           \<and> t1 \<le> t2 \<and> t2 \<le> t3 \<and> t3 - t1 < 60000
           \<and> valid_date (t1 + 60000) \<and> valid_date (t2 + 60000)
           \<and> exact_retry t1 60000 t3 \<longrightarrow>
           map snd (snd (serve L [(req0, t1), (req0, t2), (req0, t3)] rc0))
             = [Next, Next, Responded]
           \<and> body (fst (snd (serve L [(req0, t1), (req0, t2), (req0, t3)] rc0) ! 2)) =
               Some \<lparr> success = False, error = message L,
                      retryAfter =
                        Some (digits (nat \<lceil>real_of_int (t1 + 60000 - t3) / 1000\<rceil>)
                              @ '' seconds'') \<rparr>
           \<and> 1 \<le> \<lceil>real_of_int (t1 + 60000 - t3) / 1000\<rceil>)"
proof -
  let ?valid = "inWindow L now (stored rc (clientIdOf L req))"
  have full: "maxRequests L \<le> int (length ?valid)"
    using assms by (simp add: rejected_iff)
  have res: "fst (snd (rateLimiterMiddleware L req res now rc)) = rejection L res ?valid now"
    using full by (simp add: middleware_cases)
  have a: "statusCode (rejection L res ?valid now) = 429" by (simp add: rejection_def)
  have b: "body (rejection L res ?valid now) =
         Some \<lparr> success = False, error = message L,
                retryAfter = seconds_text (retryAfterSeconds ?valid (windowMs L) now) \<rparr>"
    by (simp add: rejection_def)
  have c: "retryAfterSeconds ?valid (windowMs L) now =
             Whole \<lceil>real_of_int (t0 + windowMs L - now) / 1000\<rceil>
           \<and> 1 \<le> \<lceil>real_of_int (t0 + windowMs L - now) / 1000\<rceil>
           \<and> seconds_text (retryAfterSeconds ?valid (windowMs L) now) =
               Some (digits (nat \<lceil>real_of_int (t0 + windowMs L - now) / 1000\<rceil>)
                     @ '' seconds'')"
    if h: "?valid = t0 # rest \<and> exact_retry t0 (windowMs L) now" for t0 rest
  proof -
    have "t0 \<in> set ?valid" using h by simp
    then have pos: "0 < t0 + windowMs L - now" by (simp add: inWindow_def)
    have safe: "safe_integer (t0 + windowMs L - now)" using h by (simp add: exact_retry_def)
    have "1 \<le> ceil_div_1000 (t0 + windowMs L - now)"
      using pos by (rule ceil_div_1000_positive)
    then show ?thesis
      using h whole_seconds_text[OF safe pos] by (simp add: ceil_div_1000_ceiling)
  qed
  have d: "maxRequests L \<le> 0
           \<and> seconds_text (retryAfterSeconds ?valid (windowMs L) now) = Some ''NaN seconds''"
    if "?valid = []"
    using that full by (simp add: seconds_text_def)
  have e: "hd ?valid = Min (set ?valid)"
    if "sorted (map event_time events) \<and> rc = fst (run events []) \<and> ?valid \<noteq> []"
    for events
  proof -
    have "sorted (stored rc (clientIdOf L req))"
      using that run_from_empty_in_order by blast
    then show ?thesis using that inWindow_hd_Min by blast
  qed
  have f: "map snd (snd (serve L [(req0, t1), (req0, t2), (req0, t3)] rc0))
             = [Next, Next, Responded]
           \<and> body (fst (snd (serve L [(req0, t1), (req0, t2), (req0, t3)] rc0) ! 2)) =
               Some \<lparr> success = False, error = message L,
                      retryAfter =
                        Some (digits (nat \<lceil>real_of_int (t1 + 60000 - t3) / 1000\<rceil>)
                              @ '' seconds'') \<rparr>
           \<and> 1 \<le> \<lceil>real_of_int (t1 + 60000 - t3) / 1000\<rceil>"
    if h: "windowMs L = 60000 \<and> maxRequests L = 2 \<and> stored rc0 (clientIdOf L req0) = []
           \<and> t1 \<le> t2 \<and> t2 \<le> t3 \<and> t3 - t1 < 60000
           \<and> valid_date (t1 + 60000) \<and> valid_date (t2 + 60000)
           \<and> exact_retry t1 60000 t3"
    for req0 rc0 t1 t2 t3
  proof -
    have pos: "0 < t1 + 60000 - t3" using h by simp
    have safe: "safe_integer (t1 + 60000 - t3)" using h by (simp add: exact_retry_def)
    have "1 \<le> ceil_div_1000 (t1 + 60000 - t3)"
      using pos by (rule ceil_div_1000_positive)
    then show ?thesis
      using h serve_three_rapid[of L rc0 req0 t1 t2 t3] whole_seconds_text[OF safe pos]
      by (simp add: rejection_def ceil_div_1000_ceiling)
  qed
  show ?thesis
    unfolding res using a b c d e f by blast
qed

theorem rejection_response_witness:
  "snd (snd (rateLimiterMiddleware minute_limiter example_request fresh_response 2
               [(''10.0.0.1'', [0, 1])])) = Responded
   \<and> statusCode (fst (snd (rateLimiterMiddleware minute_limiter example_request
               fresh_response 2 [(''10.0.0.1'', [0, 1])]))) = 429
   \<and> body (fst (snd (rateLimiterMiddleware minute_limiter example_request
               fresh_response 2 [(''10.0.0.1'', [0, 1])]))) =
       Some \<lparr> success = False, error = ''Too many requests'',
              retryAfter = Some ''60 seconds'' \<rparr>
   \<and> fst (run [Request minute_limiter example_request 0,
                Request minute_limiter example_request 1] []) = [(''10.0.0.1'', [0, 1])]
   \<and> hd (inWindow minute_limiter 2 (stored [(''10.0.0.1'', [0, 1])] ''10.0.0.1'')) =
       Min (set (inWindow minute_limiter 2 (stored [(''10.0.0.1'', [0, 1])] ''10.0.0.1'')))
   \<and> map snd (snd (serve minute_limiter
         [(example_request, 0), (example_request, 1), (example_request, 2)] []))
       = [Next, Next, Responded]
   \<and> body (fst (snd (serve minute_limiter
         [(example_request, 0), (example_request, 1), (example_request, 2)] []) ! 2)) =
       Some \<lparr> success = False, error = ''Too many requests'',
              retryAfter = Some ''60 seconds'' \<rparr>"
proof -
  let ?rc = "[(''10.0.0.1'', [0, 1 :: int])]"
  let ?valid = "inWindow minute_limiter 2 (stored ?rc (clientIdOf minute_limiter example_request))"
  have h: "snd (snd (rateLimiterMiddleware minute_limiter example_request fresh_response 2
               ?rc)) = Responded"
    by (simp add: middleware_cases example_defs minute_limiter_def)
  note inst = rejection_response[OF h]
  have cid: "clientIdOf minute_limiter example_request = ''10.0.0.1''"
    by (simp add: example_defs minute_limiter_def)
  have valid: "?valid = [0, 1]"
    by (simp add: example_defs minute_limiter_def)
  have exact: "exact_retry 0 (windowMs minute_limiter) 2"
    by (simp add: exact_retry_def safe_integer_def minute_limiter_def)
  have rendered: "seconds_text (retryAfterSeconds ?valid (windowMs minute_limiter) 2) =
      Some (digits (nat \<lceil>real_of_int (0 + windowMs minute_limiter - 2) / 1000\<rceil>)
            @ '' seconds'')"
    using inst valid exact by blast
  have sixty: "digits (nat \<lceil>real_of_int (0 + windowMs minute_limiter - 2) / 1000\<rceil>) = ''60''"
    by (simp add: minute_limiter_def digits.simps)
  have a: "statusCode (fst (snd (rateLimiterMiddleware minute_limiter example_request
               fresh_response 2 ?rc))) = 429"
    using inst by blast
  have "body (fst (snd (rateLimiterMiddleware minute_limiter example_request
               fresh_response 2 ?rc))) =
         Some \<lparr> success = False, error = message minute_limiter,
                retryAfter = seconds_text (retryAfterSeconds ?valid (windowMs minute_limiter) 2) \<rparr>"
    using inst by blast
  then have b: "body (fst (snd (rateLimiterMiddleware minute_limiter example_request
               fresh_response 2 ?rc))) =
       Some \<lparr> success = False, error = ''Too many requests'',
              retryAfter = Some ''60 seconds'' \<rparr>"
    unfolding rendered sixty by (simp add: minute_limiter_def)
  have reach: "fst (run [Request minute_limiter example_request 0,
                Request minute_limiter example_request 1] []) = ?rc"
    by (simp add: middleware_cases example_defs minute_limiter_def)
  have "sorted (map event_time [Request minute_limiter example_request 0,
                Request minute_limiter example_request 1])"
    by simp
  with inst reach valid have "hd ?valid = Min (set ?valid)"
    by (metis list.distinct(1))
  then have c: "hd (inWindow minute_limiter 2 (stored ?rc ''10.0.0.1'')) =
       Min (set (inWindow minute_limiter 2 (stored ?rc ''10.0.0.1'')))"
    unfolding cid .
  have three: "windowMs minute_limiter = 60000 \<and> maxRequests minute_limiter = 2
      \<and> stored [] (clientIdOf minute_limiter example_request) = []
      \<and> (0::int) \<le> 1 \<and> (1::int) \<le> 2 \<and> (2::int) - 0 < 60000
      \<and> valid_date (0 + 60000) \<and> valid_date (1 + 60000) \<and> exact_retry 0 60000 2"
    by (simp add: minute_limiter_def stored_def valid_date_def exact_retry_def safe_integer_def)
  have "map snd (snd (serve minute_limiter
           [(example_request, 0), (example_request, 1), (example_request, 2)] []))
             = [Next, Next, Responded]
           \<and> body (fst (snd (serve minute_limiter
           [(example_request, 0), (example_request, 1), (example_request, 2)] []) ! 2)) =
               Some \<lparr> success = False, error = message minute_limiter,
                      retryAfter =
                        Some (digits (nat \<lceil>real_of_int (0 + 60000 - 2) / 1000\<rceil>)
                              @ '' seconds'') \<rparr>
           \<and> 1 \<le> \<lceil>real_of_int (0 + 60000 - 2) / 1000\<rceil>"
    using inst three by blast
  then have d: "map snd (snd (serve minute_limiter
         [(example_request, 0), (example_request, 1), (example_request, 2)] []))
       = [Next, Next, Responded]
   \<and> body (fst (snd (serve minute_limiter
         [(example_request, 0), (example_request, 1), (example_request, 2)] []) ! 2)) =
       Some \<lparr> success = False, error = ''Too many requests'',
              retryAfter = Some ''60 seconds'' \<rparr>"
    by (simp add: minute_limiter_def digits.simps del: serve.simps)
  show ?thesis using h a b reach c d by simp
qed

text \<open>
  The claim as stated fails in two places. Under a quota of zero the first request is
  rejected with nothing in the window, and the body says \<open>NaN seconds\<close>. And when the
  clock went backwards between two admitted requests, at 50000 and then at 1000, the
  rejection at 55000 reports 55 seconds, from the first timestamp, where the oldest
  one gives 6.
\<close>

theorem first_timestamp_not_oldest_counterexample:
  "rateLimiterMiddleware zero_quota_limiter example_request fresh_response 5 [] =
     ([(''10.0.0.1'', [])],
      \<lparr> statusCode = 429, headers = [],
        body = Some \<lparr> success = False, error = ''Too many requests'',
                      retryAfter = Some ''NaN seconds'' \<rparr> \<rparr>,
      Responded)
   \<and> fst (serve minute_limiter [(example_request, 50000), (example_request, 1000)] []) =
       [(''10.0.0.1'', [50000, 1000])]
   \<and> rateLimiterMiddleware minute_limiter example_request fresh_response 55000
       [(''10.0.0.1'', [50000, 1000])] =
     ([(''10.0.0.1'', [50000, 1000])],
      \<lparr> statusCode = 429, headers = [],
        body = Some \<lparr> success = False, error = ''Too many requests'',
                      retryAfter = Some ''55 seconds'' \<rparr> \<rparr>,
      Responded)
   \<and> Min (set [50000, 1000 :: int]) = 1000
   \<and> \<lceil>real_of_int (1000 + windowMs minute_limiter - 55000) / 1000\<rceil> = 6"
  by (simp add: middleware_cases example_defs minute_limiter_def zero_quota_limiter_def
      seconds_text_def exact_retry_def safe_integer_def ceil_div_1000_def digits.simps)


section \<open>Claims about the cache\<close>

text \<open>
  Claim C6 (lazy expiry). When the entry of a key has \<open>expiresAt < now\<close>, \<^verbatim>\<open>get\<close>
  returns \<^verbatim>\<open>null\<close> and deletes the entry, and \<^verbatim>\<open>has\<close> returns false and deletes the
  entry; every other key is left as it was. No \<^verbatim>\<open>cleanExpired\<close> is involved: an
  entry written by \<^verbatim>\<open>set\<close> with a \<open>ttl\<close> is read as absent, and evicted, by the
  first \<^verbatim>\<open>get\<close> or \<^verbatim>\<open>has\<close> made after \<open>ttl\<close> has elapsed.
\<close>

theorem lazy_expiry:
  assumes "map_of (cache this) key = Some item" and "expiresAt item < now"
  shows "cache_get (this :: 'a cache_service) key now =
           (this\<lparr>cache := AList.delete key (cache this)\<rparr>, JNull)
       \<and> map_of (cache (fst (cache_get this key now))) key = None
       \<and> cache_has this key now = (this\<lparr>cache := AList.delete key (cache this)\<rparr>, False)
       \<and> map_of (cache (fst (cache_has this key now))) key = None
       \<and> (\<forall>k. k \<noteq> key \<longrightarrow>
             map_of (cache (fst (cache_get this key now))) k = map_of (cache this) k
             \<and> map_of (cache (fst (cache_has this key now))) k = map_of (cache this) k)
       \<and> (\<forall>(this0 :: 'a cache_service) v ttl now1 now2 now'.
             now1 + ttl < now' \<longrightarrow>
             snd (cache_get (cache_set this0 key v (Some ttl) now1 now2) key now') = JNull
             \<and> map_of (cache (fst (cache_get (cache_set this0 key v (Some ttl) now1 now2)
                                       key now'))) key = None
             \<and> snd (cache_has (cache_set this0 key v (Some ttl) now1 now2) key now') = False
             \<and> map_of (cache (fst (cache_has (cache_set this0 key v (Some ttl) now1 now2)
                                       key now'))) key = None)"
proof -
  have g: "cache_get this key now = (this\<lparr>cache := AList.delete key (cache this)\<rparr>, JNull)"
    using assms by (simp add: cache_get_def)
  have h: "cache_has this key now = (this\<lparr>cache := AList.delete key (cache this)\<rparr>, False)"
    using assms by (simp add: cache_has_def)
  have gone: "map_of (AList.delete key (cache this)) key = None"
    by (simp add: delete_conv')
  have rest: "map_of (AList.delete key (cache this)) k = map_of (cache this) k" if "k \<noteq> key" for k
    using that by simp
  have fromset:
    "snd (cache_get (cache_set this0 key v (Some ttl) now1 now2) key now') = JNull
     \<and> map_of (cache (fst (cache_get (cache_set this0 key v (Some ttl) now1 now2)
                               key now'))) key = None
     \<and> snd (cache_has (cache_set this0 key v (Some ttl) now1 now2) key now') = False
     \<and> map_of (cache (fst (cache_has (cache_set this0 key v (Some ttl) now1 now2)
                               key now'))) key = None"
    if "now1 + ttl < now'" for this0 :: "'a cache_service" and v ttl now1 now2 now'
    using that by (simp add: cache_get_def cache_has_def cache_set_lookup delete_conv')
  show ?thesis
    unfolding g h using gone rest fromset by (simp (no_asm_simp))
qed

theorem lazy_expiry_witness:
  "cache_get example_cache ''a'' 6 =
     (\<lparr> cache = [(''b'', \<lparr> itemValue = JVal ''y'', expiresAt = 10, createdAt = 1 \<rparr>),
                 (''c'', \<lparr> itemValue = JNull, expiresAt = 3, createdAt = 2 \<rparr>)],
        defaultTTL = 300000 \<rparr>, JNull)
   \<and> snd (cache_has example_cache ''a'' 6) = False
   \<and> map_of (cache (fst (cache_has example_cache ''a'' 6))) ''a'' = None"
proof -
  have h1: "map_of (cache example_cache) ''a'' =
      Some \<lparr> itemValue = JVal ''x'', expiresAt = 5, createdAt = 0 \<rparr>"
    by (simp add: example_cache_def)
  have h2: "expiresAt \<lparr> itemValue = JVal ''x'', expiresAt = 5, createdAt = 0 \<rparr> < 6"
    by simp
  note inst = lazy_expiry[OF h1 h2]
  have a: "cache_get example_cache ''a'' 6 =
      (example_cache\<lparr>cache := AList.delete ''a'' (cache example_cache)\<rparr>, JNull)"
    using inst by (rule conjunct1)
  have b: "cache_has example_cache ''a'' 6 =
      (example_cache\<lparr>cache := AList.delete ''a'' (cache example_cache)\<rparr>, False)"
    using inst by blast
  have c: "map_of (cache (fst (cache_has example_cache ''a'' 6))) ''a'' = None"
    using inst by blast
  show ?thesis
    unfolding a using b c by (simp add: example_cache_def)
qed


text \<open>
  Claim C7 (\<^verbatim>\<open>cleanExpired\<close>). For a Map, which holds each key once, the entries
  left by \<^verbatim>\<open>cleanExpired\<close> are exactly the entries with \<open>expiresAt \<ge> now\<close>, in their
  order and with their key, value, \<open>createdAt\<close> and \<open>expiresAt\<close> as before; the
  entries with \<open>expiresAt < now\<close> are gone; and the number returned is the number of
  entries removed.
\<close>

theorem cleanExpired_exact:
  assumes "distinct (map fst (cache this))"
  shows "cache (fst (cleanExpired this now)) =
           filter (\<lambda>(key, item). \<not> expiresAt item < now) (cache this)
       \<and> snd (cleanExpired this now) =
           length (filter (\<lambda>(key, item). expiresAt item < now) (cache this))
       \<and> snd (cleanExpired this now) =
           length (cache this) - length (cache (fst (cleanExpired this now)))
       \<and> (\<forall>key. map_of (cache (fst (cleanExpired this now))) key =
             (case map_of (cache this) key of
                None \<Rightarrow> None
              | Some item \<Rightarrow> if expiresAt item < now then None else Some item))
       \<and> defaultTTL (fst (cleanExpired this now)) = defaultTTL this
       \<and> distinct (map fst (cache (fst (cleanExpired this now))))"
proof -
  have loop: "cleanExpired_loop (cache this) now (cache this) 0 =
     (filter (\<lambda>entry. \<not> expired now entry) (cache this),
      length (filter (expired now) (cache this)))"
    using cleanExpired_loop_filter[of "[]" "cache this" now 0] assms by simp
  have e1: "(\<lambda>entry. \<not> expired now entry) = (\<lambda>(key, item). \<not> expiresAt item < now)"
    by (auto simp: expired_def)
  have e2: "expired now = (\<lambda>(key, item::'a cache_item). expiresAt item < now)"
    by (auto simp: expired_def)
  have a': "cache (fst (cleanExpired this now)) =
           filter (\<lambda>entry. \<not> expired now entry) (cache this)"
    using loop by (simp add: cleanExpired_def)
  have b': "snd (cleanExpired this now) = length (filter (expired now) (cache this))"
    using loop by (simp add: cleanExpired_def)
  have a: "cache (fst (cleanExpired this now)) =
           filter (\<lambda>(key, item). \<not> expiresAt item < now) (cache this)"
    using a' by (simp only: e1)
  have b: "snd (cleanExpired this now) =
           length (filter (\<lambda>(key, item). expiresAt item < now) (cache this))"
    using b' by (simp only: e2)
  have "length (cache this) =
          length (filter (expired now) (cache this))
          + length (filter (\<lambda>entry. \<not> expired now entry) (cache this))"
    using sum_length_filter_compl[of "expired now" "cache this"] by simp
  then have c: "snd (cleanExpired this now) =
           length (cache this) - length (cache (fst (cleanExpired this now)))"
    using a' b' by simp
  have d: "map_of (cache (fst (cleanExpired this now))) key =
             (case map_of (cache this) key of
                None \<Rightarrow> None
              | Some item \<Rightarrow> if expiresAt item < now then None else Some item)" for key
    unfolding a' using unexpired_lookup[OF assms] by simp
  have e: "defaultTTL (fst (cleanExpired this now)) = defaultTTL this"
    by (simp add: cleanExpired_def split_beta)
  have f: "distinct (map fst (cache (fst (cleanExpired this now))))"
    unfolding a using assms by (simp add: distinct_map_filter)
  show ?thesis using a b c d e f by blast
qed

theorem cleanExpired_exact_witness:
  "cache (fst (cleanExpired example_cache 10)) =
     [(''b'', \<lparr> itemValue = JVal ''y'', expiresAt = 10, createdAt = 1 \<rparr>)]
   \<and> snd (cleanExpired example_cache 10) = 2"
proof -
  have h: "distinct (map fst (cache example_cache))"
    by (simp add: example_cache_def)
  show ?thesis
    using cleanExpired_exact[OF h, of 10] by (simp add: example_cache_def)
qed

text \<open>
  Claim C10 (a stored \<^verbatim>\<open>null\<close> reads as absent). While an entry holding \<^verbatim>\<open>null\<close> is
  live, \<^verbatim>\<open>get\<close> returns \<^verbatim>\<open>null\<close> and leaves the cache as it is, \<^verbatim>\<open>has\<close> returns
  true, and every \<^verbatim>\<open>getOrSet\<close> invokes the supplier (once) although the entry is
  live, storing what it returns. This is so in particular right after
  \<^verbatim>\<open>set(key, null, ttl)\<close>, and after a \<^verbatim>\<open>getOrSet\<close> whose supplier returned \<^verbatim>\<open>null\<close>.
\<close>

theorem null_is_absent:
  assumes "map_of (cache this) key = Some item" and "itemValue item = JNull"
    and "now \<le> expiresAt item"
  shows "cache_get (this :: 'a cache_service) key now = (this, JNull)
       \<and> cache_has this key now = (this, True)
       \<and> snd (snd (getOrSet this key fetched ttl now now1 now2)) = 1
       \<and> (\<forall>e. fetched = Inl e \<longrightarrow> getOrSet this key fetched ttl now now1 now2 = (this, Inl e, 1))
       \<and> (\<forall>v. fetched = Inr v \<longrightarrow>
             fst (snd (getOrSet this key fetched ttl now now1 now2)) = Inr v
             \<and> map_of (cache (fst (getOrSet this key fetched ttl now now1 now2))) key =
                 Some \<lparr> itemValue = v,
                        expiresAt = now1 + (case ttl of None \<Rightarrow> defaultTTL this | Some t \<Rightarrow> t),
                        createdAt = now2 \<rparr>)
       \<and> (\<forall>(this0 :: 'a cache_service) ttl0 t1 t2 now' fetched' ttl' n1 n2.
             now' \<le> t1 + ttl0 \<longrightarrow>
             cache_get (cache_set this0 key JNull (Some ttl0) t1 t2) key now' =
               (cache_set this0 key JNull (Some ttl0) t1 t2, JNull)
             \<and> cache_has (cache_set this0 key JNull (Some ttl0) t1 t2) key now' =
               (cache_set this0 key JNull (Some ttl0) t1 t2, True)
             \<and> snd (snd (getOrSet (cache_set this0 key JNull (Some ttl0) t1 t2) key
                            fetched' ttl' now' n1 n2)) = 1)"
proof -
  have g: "cache_get this key now = (this, JNull)"
    using assms by (simp add: cache_get_def)
  have h: "cache_has this key now = (this, True)"
    using assms by (simp add: cache_has_def)
  have n: "snd (snd (getOrSet this key fetched ttl now now1 now2)) = 1"
    using g by (simp add: getOrSet_awaited Let_def split: sum.splits)
  have e: "getOrSet this key fetched ttl now now1 now2 = (this, Inl e, 1)"
    if "fetched = Inl e" for e
    using g that by (simp add: getOrSet_awaited Let_def)
  have v: "fst (snd (getOrSet this key fetched ttl now now1 now2)) = Inr v
             \<and> map_of (cache (fst (getOrSet this key fetched ttl now now1 now2))) key =
                 Some \<lparr> itemValue = v,
                        expiresAt = now1 + (case ttl of None \<Rightarrow> defaultTTL this | Some t \<Rightarrow> t),
                        createdAt = now2 \<rparr>"
    if "fetched = Inr v" for v
    using g that by (simp add: getOrSet_awaited Let_def cache_set_lookup)
  have s: "cache_get (cache_set this0 key JNull (Some ttl0) t1 t2) key now' =
               (cache_set this0 key JNull (Some ttl0) t1 t2, JNull)
             \<and> cache_has (cache_set this0 key JNull (Some ttl0) t1 t2) key now' =
               (cache_set this0 key JNull (Some ttl0) t1 t2, True)
             \<and> snd (snd (getOrSet (cache_set this0 key JNull (Some ttl0) t1 t2) key
                            fetched' ttl' now' n1 n2)) = 1"
    if "now' \<le> t1 + ttl0"
    for this0 :: "'a cache_service" and ttl0 t1 t2 now' fetched' ttl' n1 n2
    using that
    by (simp add: cache_get_def cache_has_def getOrSet_awaited cache_set_lookup Let_def
        split: sum.splits)
  show ?thesis using g h n e v s by blast
qed

theorem null_is_absent_witness:
  "cache_get (cache_set empty_cache ''k'' JNull (Some 1000) 0 0) ''k'' 1 =
     (cache_set empty_cache ''k'' JNull (Some 1000) 0 0, JNull)
   \<and> cache_has (cache_set empty_cache ''k'' JNull (Some 1000) 0 0) ''k'' 1 =
     (cache_set empty_cache ''k'' JNull (Some 1000) 0 0, True)
   \<and> snd (snd (getOrSet (cache_set empty_cache ''k'' JNull (Some 1000) 0 0) ''k''
                  (Inr (JVal ''v'')) (Some 1000) 1 1 1)) = 1"
proof -
  have h1: "map_of (cache (cache_set empty_cache ''k'' JNull (Some 1000) 0 0)) ''k'' =
      Some \<lparr> itemValue = JNull, expiresAt = 1000, createdAt = 0 \<rparr>"
    by (simp add: cache_set_lookup)
  have h2: "itemValue \<lparr> itemValue = JNull :: string js_value, expiresAt = 1000, createdAt = 0 \<rparr>
      = JNull"
    by simp
  have h3: "1 \<le> expiresAt \<lparr> itemValue = JNull :: string js_value, expiresAt = 1000,
      createdAt = 0 \<rparr>"
    by simp
  show ?thesis
    using null_is_absent[OF h1 h2 h3, of "Inr (JVal ''v'')" "Some 1000" 1 1] by simp
qed



text \<open>
  Claim C3, as the code has it. \<^verbatim>\<open>getOrSet\<close> tells a hit from a miss by
  \<^verbatim>\<open>cached !== null\<close>. With a live entry whose value is not \<^verbatim>\<open>null\<close> it returns that
  value, leaves the cache as it is and does not invoke the supplier. Otherwise (no
  entry, an expired entry, or a stored \<^verbatim>\<open>null\<close>) it invokes the supplier and
  suspends; when the supplier has produced a value, the call stores it under the key
  with the \<open>ttl\<close> and returns it, and when the supplier has failed the call passes
  the failure on and stores nothing. So for every value other than \<^verbatim>\<open>null\<close>, a second
  call that starts after the first has stored its value, and within \<open>ttl\<close> of the
  store, returns that value without invoking the supplier: one invocation for the
  two calls. A second call that starts while the first is still suspended misses as
  well: two invocations.
\<close>

theorem getOrSet_cache_aside:
  "(\<forall>item. map_of (cache this) key = Some item \<and> now \<le> expiresAt item
            \<and> itemValue item \<noteq> JNull \<longrightarrow>
       getOrSet_start this key ttl now = (this, Hit (itemValue item))
       \<and> getOrSet this key fetched ttl now now1 now2 = (this, Inr (itemValue item), 0))
   \<and> (snd (cache_get this key now) = JNull \<longleftrightarrow>
        (case map_of (cache this) key of
           None \<Rightarrow> True
         | Some item \<Rightarrow> expiresAt item < now \<or> itemValue item = JNull))
   \<and> (snd (cache_get this key now) = JNull \<longrightarrow>
        getOrSet_start this key ttl now =
          (fst (cache_get this key now),
           Suspended (case ttl of None \<Rightarrow> defaultTTL this | Some t \<Rightarrow> t)))
   \<and> (\<forall>(held :: 'a cache_service) ttl' v.
        getOrSet_resume held key ttl' (Inr v) now1 now2 =
          (cache_set held key v (Some ttl') now1 now2, Inr v)
        \<and> map_of (cache (fst (getOrSet_resume held key ttl' (Inr v) now1 now2))) key =
            Some \<lparr> itemValue = v, expiresAt = now1 + ttl', createdAt = now2 \<rparr>)
   \<and> (\<forall>(held :: 'a cache_service) ttl' e.
        getOrSet_resume held key ttl' (Inl e) now1 now2 = (held, Inl e))
   \<and> (\<forall>v. snd (cache_get this key now) = JNull \<and> fetched = Inr v \<longrightarrow>
        getOrSet this key fetched ttl now now1 now2 =
          (cache_set (fst (cache_get this key now)) key v
             (Some (case ttl of None \<Rightarrow> defaultTTL this | Some t \<Rightarrow> t)) now1 now2,
           Inr v, 1))
   \<and> (\<forall>v ttl0 later.
        snd (cache_get this key now) = JNull \<and> v \<noteq> JNull \<and> later \<le> now1 + ttl0 \<longrightarrow>
        getOrSet_start
          (fst (getOrSet_resume (fst (getOrSet_start this key (Some ttl0) now)) key ttl0
                  (Inr v) now1 now2))
          key (Some ttl0) later =
          (fst (getOrSet_resume (fst (getOrSet_start this key (Some ttl0) now)) key ttl0
                  (Inr v) now1 now2),
           Hit v)
        \<and> invocations (snd (getOrSet_start this key (Some ttl0) now))
            + invocations (snd (getOrSet_start
                (fst (getOrSet_resume (fst (getOrSet_start this key (Some ttl0) now)) key ttl0
                        (Inr v) now1 now2))
                key (Some ttl0) later)) = 1)
   \<and> (\<forall>ttl0 later.
        snd (cache_get this key now) = JNull \<longrightarrow>
        snd (getOrSet_start (fst (getOrSet_start this key (Some ttl0) now)) key (Some ttl0)
               later) = Suspended ttl0
        \<and> invocations (snd (getOrSet_start this key (Some ttl0) now))
            + invocations (snd (getOrSet_start (fst (getOrSet_start this key (Some ttl0) now))
                key (Some ttl0) later)) = 2)"
proof -
  have hit: "getOrSet_start this key ttl now = (this, Hit (itemValue item))
       \<and> getOrSet this key fetched ttl now now1 now2 = (this, Inr (itemValue item), 0)"
    if "map_of (cache this) key = Some item \<and> now \<le> expiresAt item \<and> itemValue item \<noteq> JNull"
    for item
    using that getOrSet_start_hit[of this key item now ttl] getOrSet_hit by blast
  have absent: "snd (cache_get this key now) = JNull \<longleftrightarrow>
        (case map_of (cache this) key of
           None \<Rightarrow> True
         | Some item \<Rightarrow> expiresAt item < now \<or> itemValue item = JNull)"
    by (rule cache_get_miss_iff)
  have miss: "getOrSet_start this key ttl now =
          (fst (cache_get this key now),
           Suspended (case ttl of None \<Rightarrow> defaultTTL this | Some t \<Rightarrow> t))"
    if "snd (cache_get this key now) = JNull"
    using that by (rule getOrSet_start_miss)
  have resume: "getOrSet_resume held key ttl' (Inr v) now1 now2 =
          (cache_set held key v (Some ttl') now1 now2, Inr v)
        \<and> map_of (cache (fst (getOrSet_resume held key ttl' (Inr v) now1 now2))) key =
            Some \<lparr> itemValue = v, expiresAt = now1 + ttl', createdAt = now2 \<rparr>"
    for held :: "'a cache_service" and ttl' v
    by (simp add: getOrSet_resume_def cache_set_lookup)
  have fail: "getOrSet_resume held key ttl' (Inl e) now1 now2 = (held, Inl e)"
    for held :: "'a cache_service" and ttl' e
    by (simp add: getOrSet_resume_def)
  have awaited: "getOrSet this key fetched ttl now now1 now2 =
          (cache_set (fst (cache_get this key now)) key v
             (Some (case ttl of None \<Rightarrow> defaultTTL this | Some t \<Rightarrow> t)) now1 now2,
           Inr v, 1)"
    if "snd (cache_get this key now) = JNull \<and> fetched = Inr v" for v
    using that by (simp add: getOrSet_miss)
  have after: "getOrSet_start
          (fst (getOrSet_resume (fst (getOrSet_start this key (Some ttl0) now)) key ttl0
                  (Inr v) now1 now2))
          key (Some ttl0) later =
          (fst (getOrSet_resume (fst (getOrSet_start this key (Some ttl0) now)) key ttl0
                  (Inr v) now1 now2),
           Hit v)
        \<and> invocations (snd (getOrSet_start this key (Some ttl0) now))
            + invocations (snd (getOrSet_start
                (fst (getOrSet_resume (fst (getOrSet_start this key (Some ttl0) now)) key ttl0
                        (Inr v) now1 now2))
                key (Some ttl0) later)) = 1"
    if h: "snd (cache_get this key now) = JNull \<and> v \<noteq> JNull \<and> later \<le> now1 + ttl0"
    for v ttl0 later
  proof -
    define waiting where "waiting = fst (cache_get this key now)"
    define written where "written = cache_set waiting key v (Some ttl0) now1 now2"
    have first: "getOrSet_start this key (Some ttl0) now = (waiting, Suspended ttl0)"
      using h by (simp add: getOrSet_start_miss waiting_def)
    have stored: "getOrSet_resume waiting key ttl0 (Inr v) now1 now2 = (written, Inr v)"
      by (simp add: getOrSet_resume_def written_def)
    have entry: "map_of (cache written) key =
        Some \<lparr> itemValue = v, expiresAt = now1 + ttl0, createdAt = now2 \<rparr>"
      by (simp add: written_def cache_set_lookup)
    have second: "getOrSet_start written key (Some ttl0) later = (written, Hit v)"
      using getOrSet_start_hit[OF entry, of later "Some ttl0"] h by simp
    show ?thesis unfolding first using stored second by simp
  qed
  have overlap: "snd (getOrSet_start (fst (getOrSet_start this key (Some ttl0) now)) key
               (Some ttl0) later) = Suspended ttl0
        \<and> invocations (snd (getOrSet_start this key (Some ttl0) now))
            + invocations (snd (getOrSet_start (fst (getOrSet_start this key (Some ttl0) now))
                key (Some ttl0) later)) = 2"
    if h: "snd (cache_get this key now) = JNull" for ttl0 later
  proof -
    define waiting where "waiting = fst (cache_get this key now)"
    have first: "getOrSet_start this key (Some ttl0) now = (waiting, Suspended ttl0)"
      using h by (simp add: getOrSet_start_miss waiting_def)
    have "snd (cache_get waiting key later) = JNull"
      using miss_stays_miss[OF h, of later] by (simp add: waiting_def)
    then have second: "snd (getOrSet_start waiting key (Some ttl0) later) = Suspended ttl0"
      by (simp add: getOrSet_start_miss)
    show ?thesis unfolding first using second by simp
  qed
  show ?thesis
    using hit absent miss resume fail awaited after overlap by blast
qed


theorem getOrSet_cache_aside_witness:
  "getOrSet_start empty_cache ''k'' (Some 1000) 0 = (empty_cache, Suspended 1000)
   \<and> getOrSet_resume empty_cache ''k'' 1000 (Inr (JVal ''v'')) 0 0 =
       (\<lparr> cache = [(''k'', \<lparr> itemValue = JVal ''v'', expiresAt = 1000, createdAt = 0 \<rparr>)],
          defaultTTL = 300000 \<rparr>, Inr (JVal ''v''))
   \<and> getOrSet_start
         \<lparr> cache = [(''k'', \<lparr> itemValue = JVal ''v'', expiresAt = 1000, createdAt = 0 \<rparr>)],
           defaultTTL = 300000 \<rparr> ''k'' (Some 1000) 1 =
       (\<lparr> cache = [(''k'', \<lparr> itemValue = JVal ''v'', expiresAt = 1000, createdAt = 0 \<rparr>)],
          defaultTTL = 300000 \<rparr>, Hit (JVal ''v''))
   \<and> invocations (snd (getOrSet_start empty_cache ''k'' (Some 1000) 0))
       + invocations (snd (getOrSet_start
           (fst (getOrSet_resume (fst (getOrSet_start empty_cache ''k'' (Some 1000) 0)) ''k''
                   1000 (Inr (JVal ''v'')) 0 0))
           ''k'' (Some 1000) 1)) = 1
   \<and> invocations (snd (getOrSet_start empty_cache ''k'' (Some 1000) 0))
       + invocations (snd (getOrSet_start (fst (getOrSet_start empty_cache ''k'' (Some 1000) 0))
           ''k'' (Some 1000) 1)) = 2"
proof -
  have miss: "snd (cache_get empty_cache ''k'' 0) = JNull"
    by (simp add: cache_get_def empty_cache_def)
  have same: "fst (cache_get empty_cache ''k'' 0) = empty_cache"
    by (simp add: cache_get_def empty_cache_def)
  note inst = getOrSet_cache_aside[of empty_cache "''k''" 0 "Some 1000" "Inr (JVal ''v'')" 0 0]
  have "getOrSet_start empty_cache ''k'' (Some 1000) 0 =
      (fst (cache_get empty_cache ''k'' 0),
       Suspended (case Some 1000 of None \<Rightarrow> defaultTTL empty_cache | Some t \<Rightarrow> t))"
    using inst miss by blast
  then have first: "getOrSet_start empty_cache ''k'' (Some 1000) 0 = (empty_cache, Suspended 1000)"
    by (simp add: same)
  have "getOrSet_resume empty_cache ''k'' 1000 (Inr (JVal ''v'')) 0 0 =
      (cache_set empty_cache ''k'' (JVal ''v'') (Some 1000) 0 0, Inr (JVal ''v''))"
    using inst by blast
  then have written: "getOrSet_resume empty_cache ''k'' 1000 (Inr (JVal ''v'')) 0 0 =
       (\<lparr> cache = [(''k'', \<lparr> itemValue = JVal ''v'', expiresAt = 1000, createdAt = 0 \<rparr>)],
          defaultTTL = 300000 \<rparr>, Inr (JVal ''v''))"
    by (simp add: cache_set_def empty_cache_def)
  have "JVal ''v'' \<noteq> (JNull :: string js_value)" "(1::int) \<le> 0 + 1000" by simp_all
  with inst miss have after:
    "getOrSet_start
          (fst (getOrSet_resume (fst (getOrSet_start empty_cache ''k'' (Some 1000) 0)) ''k'' 1000
                  (Inr (JVal ''v'')) 0 0))
          ''k'' (Some 1000) 1 =
          (fst (getOrSet_resume (fst (getOrSet_start empty_cache ''k'' (Some 1000) 0)) ''k'' 1000
                  (Inr (JVal ''v'')) 0 0),
           Hit (JVal ''v''))
        \<and> invocations (snd (getOrSet_start empty_cache ''k'' (Some 1000) 0))
            + invocations (snd (getOrSet_start
                (fst (getOrSet_resume (fst (getOrSet_start empty_cache ''k'' (Some 1000) 0)) ''k''
                        1000 (Inr (JVal ''v'')) 0 0))
                ''k'' (Some 1000) 1)) = 1"
    by blast
  from inst miss have overlap:
    "invocations (snd (getOrSet_start empty_cache ''k'' (Some 1000) 0))
       + invocations (snd (getOrSet_start (fst (getOrSet_start empty_cache ''k'' (Some 1000) 0))
           ''k'' (Some 1000) 1)) = 2"
    by blast
  have second: "getOrSet_start
         \<lparr> cache = [(''k'', \<lparr> itemValue = JVal ''v'', expiresAt = 1000, createdAt = 0 \<rparr>)],
           defaultTTL = 300000 \<rparr> ''k'' (Some 1000) 1 =
       (\<lparr> cache = [(''k'', \<lparr> itemValue = JVal ''v'', expiresAt = 1000, createdAt = 0 \<rparr>)],
          defaultTTL = 300000 \<rparr>, Hit (JVal ''v''))"
    using after unfolding first by (simp add: written)
  show ?thesis
    using first written second after overlap by blast
qed

text \<open>
  The claim as stated fails in two places. For the value \<^verbatim>\<open>null\<close>: the supplier
  returns \<^verbatim>\<open>null\<close> at 0 with a \<open>ttl\<close> of 1000, the entry is live at 1, and a second
  call then invokes the supplier again. And for any value when the calls overlap: a
  call started at 0 is still waiting for its supplier at 1, nothing is stored yet,
  and the call started at 1 invokes the supplier too.
\<close>

theorem getOrSet_null_refetch_counterexample:
  "map_of (cache (fst (getOrSet empty_cache ''k'' (Inr JNull) (Some 1000) 0 0 0))) ''k'' =
     Some \<lparr> itemValue = JNull, expiresAt = 1000, createdAt = 0 \<rparr>
   \<and> snd (snd (getOrSet empty_cache ''k'' (Inr JNull) (Some 1000) 0 0 0)) = 1
   \<and> snd (snd (getOrSet (fst (getOrSet empty_cache ''k'' (Inr JNull) (Some 1000) 0 0 0)) ''k''
                  (Inr JNull) (Some 1000) 1 1 1)) = 1
   \<and> snd (snd (getOrSet empty_cache ''k'' (Inr JNull) (Some 1000) 0 0 0))
       + snd (snd (getOrSet (fst (getOrSet empty_cache ''k'' (Inr JNull) (Some 1000) 0 0 0))
                     ''k'' (Inr JNull) (Some 1000) 1 1 1)) \<noteq> 1
   \<and> getOrSet_start empty_cache ''k'' (Some 1000) 0 = (empty_cache, Suspended 1000)
   \<and> getOrSet_start empty_cache ''k'' (Some 1000) 1 = (empty_cache, Suspended 1000)
   \<and> invocations (Suspended 1000 :: string started)
       + invocations (Suspended 1000 :: string started) \<noteq> 1"
  by (simp add: getOrSet_awaited getOrSet_start_def cache_get_def cache_set_def empty_cache_def)


section \<open>Claim about construction\<close>

text \<open>
  Claim C9, as the code has it. Nothing is validated. \<^verbatim>\<open>createRateLimiter\<close> returns a
  limiter for every options object, with \<open>windowMs\<close> and \<open>maxRequests\<close> as given;
  the constructor of the cache takes no \<open>ttl\<close> and always gives an empty cache with a
  default of 300000; and \<^verbatim>\<open>set\<close> stores an entry for any \<open>ttl\<close>. A limiter with
  \<open>windowMs \<le> 0\<close> and a quota of at least 1 admits every request made when no stored
  timestamp of the client lies in the future, and an entry set with a negative \<open>ttl\<close>
  is absent from the moment it is written.
\<close>

theorem construction_never_fails:
  "createRateLimiter options =
     Inr \<lparr> windowMs = (case opt_windowMs options of None \<Rightarrow> 900000 | Some w \<Rightarrow> w),
           maxRequests = (case opt_maxRequests options of None \<Rightarrow> 100 | Some m \<Rightarrow> m),
           message = (case opt_message options of
                        None \<Rightarrow> ''Too many requests from this IP, please try again later.''
                      | Some s \<Rightarrow> s),
           useUserId = (case opt_useUserId options of None \<Rightarrow> False | Some b \<Rightarrow> b) \<rparr>
   \<and> (CacheService :: js_error + 'a cache_service) = Inr \<lparr> cache = [], defaultTTL = 300000 \<rparr>
   \<and> map_of (cache (cache_set (this :: 'a cache_service) key v (Some ttl) now1 now2)) key =
       Some \<lparr> itemValue = v, expiresAt = now1 + ttl, createdAt = now2 \<rparr>
   \<and> (windowMs L \<le> 0 \<and> 1 \<le> maxRequests L
        \<and> (\<forall>t \<in> set (stored rc (clientIdOf L req)). t \<le> now)
        \<and> valid_date (now + windowMs L) \<longrightarrow>
        snd (snd (rateLimiterMiddleware L req res now rc)) = Next)
   \<and> (ttl < 0 \<and> now1 \<le> now \<longrightarrow>
        snd (cache_get (cache_set this key v (Some ttl) now1 now2) key now) = JNull
        \<and> snd (cache_has (cache_set this key v (Some ttl) now1 now2) key now) = False)"
proof -
  have a: "createRateLimiter options =
     Inr \<lparr> windowMs = (case opt_windowMs options of None \<Rightarrow> 900000 | Some w \<Rightarrow> w),
           maxRequests = (case opt_maxRequests options of None \<Rightarrow> 100 | Some m \<Rightarrow> m),
           message = (case opt_message options of
                        None \<Rightarrow> ''Too many requests from this IP, please try again later.''
                      | Some s \<Rightarrow> s),
           useUserId = (case opt_useUserId options of None \<Rightarrow> False | Some b \<Rightarrow> b) \<rparr>"
    by (simp add: createRateLimiter_def split: option.splits)
  have b: "(CacheService :: js_error + 'a cache_service) =
      Inr \<lparr> cache = [], defaultTTL = 300000 \<rparr>"
    by (simp add: CacheService_def)
  have c: "map_of (cache (cache_set this key v (Some ttl) now1 now2)) key =
       Some \<lparr> itemValue = v, expiresAt = now1 + ttl, createdAt = now2 \<rparr>"
    by (simp add: cache_set_lookup)
  have d: "snd (snd (rateLimiterMiddleware L req res now rc)) = Next"
    if h: "windowMs L \<le> 0 \<and> 1 \<le> maxRequests L
        \<and> (\<forall>t \<in> set (stored rc (clientIdOf L req)). t \<le> now)
        \<and> valid_date (now + windowMs L)"
  proof -
    have "inWindow L now (stored rc (clientIdOf L req)) = []"
      using h by (fastforce simp: inWindow_def filter_empty_conv)
    then show ?thesis using h by (simp add: admitted_iff)
  qed
  have e: "snd (cache_get (cache_set this key v (Some ttl) now1 now2) key now) = JNull
        \<and> snd (cache_has (cache_set this key v (Some ttl) now1 now2) key now) = False"
    if "ttl < 0 \<and> now1 \<le> now"
    using that by (simp add: cache_get_def cache_has_def cache_set_lookup)
  show ?thesis using a b c d e by blast
qed

theorem construction_never_fails_witness:
  "createRateLimiter negative_window_options = Inr negative_window_limiter
   \<and> map snd (snd (serve negative_window_limiter
        [(example_request, 0), (example_request, 1), (example_request, 2)] []))
      = [Next, Next, Next]
   \<and> snd (snd (rateLimiterMiddleware negative_window_limiter example_request fresh_response 10
        [(''10.0.0.1'', [0, 1])])) = Next
   \<and> snd (cache_get (cache_set empty_cache ''k'' (JVal ''v'') (Some (- 5)) 10 10) ''k'' 10)
      = JNull"
proof -
  note inst = construction_never_fails[where options = negative_window_options
      and L = negative_window_limiter and rc = "[(''10.0.0.1'', [0, 1])]"
      and req = example_request and now = 10 and res = fresh_response and ttl = "- 5"
      and ?now1.0 = 10 and ?now2.0 = 10 and this = empty_cache and key = "''k''"
      and v = "JVal ''v''"]
  have a: "createRateLimiter negative_window_options = Inr negative_window_limiter"
    using inst by (simp add: negative_window_options_def negative_window_limiter_def)
  have b: "map snd (snd (serve negative_window_limiter
        [(example_request, 0), (example_request, 1), (example_request, 2)] []))
      = [Next, Next, Next]"
    by (simp add: middleware_cases example_defs negative_window_limiter_def)
  have c: "snd (snd (rateLimiterMiddleware negative_window_limiter example_request
        fresh_response 10 [(''10.0.0.1'', [0, 1])])) = Next"
    using inst by (simp add: example_defs negative_window_limiter_def)
  have d: "snd (cache_get (cache_set empty_cache ''k'' (JVal ''v'') (Some (- 5)) 10 10) ''k'' 10)
      = JNull"
    using inst by simp
  show ?thesis using a b c d by simp
qed

text \<open>
  The claim as stated fails: the factory given \<open>windowMs = -1000\<close> returns a limiter
  with that window, the constructor of the cache returns a cache, and \<^verbatim>\<open>set\<close> with a
  \<open>ttl\<close> of -5 stores an entry that expired before it was created.
\<close>

theorem misconfiguration_accepted_counterexample:
  "createRateLimiter negative_window_options = Inr negative_window_limiter
   \<and> \<not> isl (createRateLimiter negative_window_options)
   \<and> windowMs negative_window_limiter = - 1000
   \<and> \<not> isl (CacheService :: js_error + string cache_service)
   \<and> cache (cache_set empty_cache ''k'' (JVal ''v'') (Some (- 5)) 10 10) =
       [(''k'', \<lparr> itemValue = JVal ''v'', expiresAt = 5, createdAt = 10 \<rparr>)]"
  by (simp add: createRateLimiter_def negative_window_options_def negative_window_limiter_def
      CacheService_def cache_set_def empty_cache_def)


end
